theory Spec2Isabelle
  imports Main "HOL-Library.Word"
begin

section \<open>Machine integers\<close>

text \<open>
  The service is Go; its \<open>int\<close> is the 64-bit two's complement integer. Identifiers,
  versions and the action type index are of that type: \<open>+\<close> wraps, comparisons read the
  value through \<open>sint\<close>.
\<close>

type_synonym go_int = "64 word"

section \<open>The serialized reference list: \<open>json.Marshal\<close> and \<open>json.Unmarshal\<close> at type \<open>[]int\<close>\<close>

text \<open>
  \<open>convertLink\<close> calls Go's \<open>encoding/json\<close> on a \<open>[]int\<close>. The library is not part of
  the repository; the two functions below give its behaviour at that one type.
  \<open>json.Marshal\<close> of a non-nil \<open>[]int\<close> writes \<open>[\<close>, the elements in base 10 separated by
  commas, and \<open>]\<close>.
\<close>

definition digit_char :: "int \<Rightarrow> char" where
  "digit_char d = ''0123456789'' ! nat d"

function show_nat :: "int \<Rightarrow> string" where
  "show_nat n = (if n < 10 then [digit_char n] else show_nat (n div 10) @ [digit_char (n mod 10)])"
  by pat_completeness auto
termination
  by (relation "measure nat") auto

declare show_nat.simps [simp del]

definition show_int :: "int \<Rightarrow> string" where
  "show_int i = (if i < 0 then CHR ''-'' # show_nat (- i) else show_nat i)"

fun join_commas :: "string list \<Rightarrow> string" where
  "join_commas [] = []"
| "join_commas [x] = x"
| "join_commas (x # y # zs) = x @ CHR '','' # join_commas (y # zs)"

definition json_marshal_ints :: "go_int list \<Rightarrow> string" where
  "json_marshal_ints ids = CHR ''['' # join_commas (map (\<lambda>w. show_int (sint w)) ids) @ '']''"

text \<open>
  \<open>json.Unmarshal\<close> into a \<open>[]int\<close> returns a nil error exactly on: the literal \<open>null\<close>
  (the slice stays empty), or an array whose elements are integer literals
  \<open>-?(0|[1-9][0-9]*)\<close> within the 64-bit range or the literal \<open>null\<close> (which leaves the
  element 0); white space (space, tab, line feed, carriage return) may surround every
  token. Any other input is a syntax error or a type error, and \<open>convertLink\<close> treats
  both alike, so the decoder returns \<open>None\<close> for either.
\<close>

definition is_ws :: "char \<Rightarrow> bool" where
  "is_ws c = (c = CHR '' '' \<or> c = CHR 0x09 \<or> c = CHR 0x0A \<or> c = CHR 0x0D)"

definition is_digit :: "char \<Rightarrow> bool" where
  "is_digit c = (c \<in> set ''0123456789'')"

definition digit_val :: "char \<Rightarrow> int" where
  "digit_val c = of_char c - 48"

definition skip_ws :: "string \<Rightarrow> string" where
  "skip_ws s = dropWhile is_ws s"

definition digits_value :: "string \<Rightarrow> int" where
  "digits_value ds = foldl (\<lambda>a c. 10 * a + digit_val c) 0 ds"

definition scan_number :: "string \<Rightarrow> (go_int \<times> string) option" where
  "scan_number s =
     (let neg = (s \<noteq> [] \<and> hd s = CHR ''-'');
          s1 = (if neg then tl s else s);
          ds = takeWhile is_digit s1;
          rest = dropWhile is_digit s1
      in if ds = [] then None
         else if hd ds = CHR ''0'' \<and> 1 < length ds then None
         else let v = (if neg then - digits_value ds else digits_value ds)
              in if - (2 ^ 63) \<le> v \<and> v < 2 ^ 63 then Some (word_of_int v, rest) else None)"

definition scan_elem :: "string \<Rightarrow> (go_int \<times> string) option" where
  "scan_elem s = (if take 4 s = ''null'' then Some (0, drop 4 s) else scan_number s)"

lemma length_scan_number: "scan_number s = Some (v, r) \<Longrightarrow> length r \<le> length s"
  by (auto simp: scan_number_def Let_def length_dropWhile_le le_SucI
      intro: order_trans [OF length_dropWhile_le] split: if_splits)

lemma length_scan_elem: "scan_elem s = Some (v, r) \<Longrightarrow> length r \<le> length s"
  by (auto simp: scan_elem_def dest: length_scan_number split: if_splits)

lemma length_skip_ws: "length (skip_ws s) \<le> length s"
  by (simp add: skip_ws_def length_dropWhile_le)

function scan_elems :: "string \<Rightarrow> (go_int list \<times> string) option" where
  "scan_elems s =
     (case scan_elem s of
        None \<Rightarrow> None
      | Some (v, r) \<Rightarrow>
          (case skip_ws r of
             [] \<Rightarrow> None
           | c # t \<Rightarrow>
               if c = CHR '','' then
                 (case scan_elems (skip_ws t) of
                    None \<Rightarrow> None
                  | Some (vs, u) \<Rightarrow> Some (v # vs, u))
               else if c = CHR '']'' then Some ([v], t)
               else None))"
  by pat_completeness auto
termination
proof (relation "measure length")
  show "wf (measure length)" by simp
next
  fix s :: string and x2 v r c t
  assume a: "scan_elem s = Some x2" "(v, r) = x2" "skip_ws r = c # t"
  from a have "length r \<le> length s" by (auto dest: length_scan_elem)
  moreover have "length (skip_ws r) \<le> length r" by (rule length_skip_ws)
  moreover have "length (skip_ws t) \<le> length t" by (rule length_skip_ws)
  ultimately show "(skip_ws t, s) \<in> measure length" using a(3) by simp
qed

declare scan_elems.simps [simp del]

definition json_unmarshal_ints :: "string \<Rightarrow> go_int list option" where
  "json_unmarshal_ints ref =
     (let s = skip_ws ref
      in if take 4 s = ''null'' then (if skip_ws (drop 4 s) = [] then Some [] else None)
         else (case s of
                 [] \<Rightarrow> None
               | c # r \<Rightarrow>
                   if c \<noteq> CHR ''['' then None
                   else (case skip_ws r of
                           [] \<Rightarrow> None
                         | d # t \<Rightarrow>
                             if d = CHR '']'' then (if skip_ws t = [] then Some [] else None)
                             else (case scan_elems (d # t) of
                                     None \<Rightarrow> None
                                   | Some (ids, u) \<Rightarrow> if skip_ws u = [] then Some ids else None))))"

section \<open>convertLink\<close>

text \<open>
  Indexing a Go map with a key it does not hold yields the zero value of the element
  type, here 0.
\<close>

definition map_index :: "(go_int \<rightharpoonup> go_int) \<Rightarrow> go_int \<Rightarrow> go_int" where
  "map_index idMap k = (case idMap k of None \<Rightarrow> 0 | Some v \<Rightarrow> v)"

definition convertLink :: "string \<Rightarrow> (go_int \<rightharpoonup> go_int) \<Rightarrow> string" where
  "convertLink ref idMap =
     (case json_unmarshal_ints ref of
        None \<Rightarrow> ''''
      | Some oldIDs \<Rightarrow> json_marshal_ints (map (map_index idMap) oldIDs))"

section \<open>Rows and the storage ports\<close>

text \<open>
  The row types of \<open>internal/repository\<close> are not under \<open>src/\<close>; each record below has
  the fields that \<open>service.go\<close> reads or writes. The wall-clock audit fields
  (\<open>CreatedAt\<close>, \<open>UpdatedAt\<close>, \<open>ModifiedAt\<close>) are left out: they are set from
  \<open>time.Now()\<close> and nothing else in the service reads them.
\<close>

datatype error = StorageFailure | RecordNotFound | ContentNotFound | NoComponent

text \<open>
  Modelled from the spec: the state-kind tags of \<open>internal/repository\<close>
  (\<open>TREE_STATE_TYPE_COMPONENTS\<close>, \<open>KV_STATE_TYPE_DEPENDENCIES\<close>,
  \<open>KV_STATE_TYPE_DRAG_SHADOW\<close>, \<open>KV_STATE_TYPE_DOTTED_LINE_SQUARE\<close>,
  \<open>SET_STATE_TYPE_DISPLAY_NAME\<close>), whose integer values are declared outside \<open>src/\<close>.
\<close>

datatype state_type =
    TREE_STATE_TYPE_COMPONENTS
  | KV_STATE_TYPE_DEPENDENCIES
  | KV_STATE_TYPE_DRAG_SHADOW
  | KV_STATE_TYPE_DOTTED_LINE_SQUARE
  | SET_STATE_TYPE_DISPLAY_NAME

text \<open>
  Modelled from the spec: \<open>repository.APP_EDIT_VERSION\<close>, the one mutable draft version,
  is 0; \<open>repository.TREE_STATE_SUMMIT_NAME\<close>, the name of the root node, is \<open>root\<close>.
\<close>

definition APP_EDIT_VERSION :: go_int where
  "APP_EDIT_VERSION = 0"

definition TREE_STATE_SUMMIT_NAME :: string where
  "TREE_STATE_SUMMIT_NAME = ''root''"

datatype json =
    JNull
  | JBool bool
  | JNumber int
  | JString string
  | JArray "json list"
  | JObject "(string \<times> json) list"

text \<open>A Go \<open>map[string]interface{}\<close>: \<open>None\<close> is the nil map.\<close>

type_synonym json_object = "(string \<times> json) list option"

record app =
  app_ID :: go_int
  app_Name :: string
  app_ReleaseVersion :: go_int
  app_MainlineVersion :: go_int
  app_CreatedBy :: go_int
  app_UpdatedBy :: go_int

record user =
  user_ID :: go_int
  user_Nickname :: string

record tree_state =
  ts_ID :: go_int
  ts_StateType :: state_type
  ts_ParentNodeRefID :: go_int
  ts_ChildrenNodeRefIDs :: string
  ts_AppRefID :: go_int
  ts_Version :: go_int
  ts_Name :: string
  ts_Content :: string
  ts_CreatedBy :: go_int
  ts_UpdatedBy :: go_int

record kv_state =
  kv_ID :: go_int
  kv_StateType :: state_type
  kv_AppRefID :: go_int
  kv_Version :: go_int
  kv_Key :: string
  kv_Value :: string
  kv_CreatedBy :: go_int
  kv_UpdatedBy :: go_int

record set_state =
  ss_ID :: go_int
  ss_StateType :: state_type
  ss_AppRefID :: go_int
  ss_Version :: go_int
  ss_Value :: string
  ss_CreatedBy :: go_int
  ss_UpdatedBy :: go_int

record action_row =
  ar_ID :: go_int
  ar_App :: go_int
  ar_Version :: go_int
  ar_Resource :: go_int
  ar_Name :: string
  ar_Type :: go_int
  ar_Template :: json_object
  ar_Transformer :: json_object
  ar_TriggerMode :: string
  ar_CreatedBy :: go_int
  ar_UpdatedBy :: go_int

text \<open>
  The zero values of the row types, as \<open>&repository.TreeState{}\<close> and a failed retrieve
  give them. The zero state-kind tag is the integer 0, which the datatype of tags cannot
  name; \<open>zero_tree_state\<close> carries \<open>TREE_STATE_TYPE_COMPONENTS\<close> in its place, and
  nothing in the service reads the tag of that row.
\<close>

definition zero_app :: app where
  "zero_app = \<lparr>app_ID = 0, app_Name = [], app_ReleaseVersion = 0, app_MainlineVersion = 0,
     app_CreatedBy = 0, app_UpdatedBy = 0\<rparr>"

definition zero_user :: user where
  "zero_user = \<lparr>user_ID = 0, user_Nickname = []\<rparr>"

definition zero_tree_state :: tree_state where
  "zero_tree_state = \<lparr>ts_ID = 0, ts_StateType = TREE_STATE_TYPE_COMPONENTS,
     ts_ParentNodeRefID = 0, ts_ChildrenNodeRefIDs = [], ts_AppRefID = 0, ts_Version = 0,
     ts_Name = [], ts_Content = [], ts_CreatedBy = 0, ts_UpdatedBy = 0\<rparr>"

text \<open>
  Modelled from the spec: the storage ports (the implementations of the repository
  interfaces are not under \<open>src/\<close>). Section 6 of the spec gives their contract:
  \<open>create(row) -> identifier | error\<close>, \<open>update(row) -> error\<close> (by identifier), and
  retrieval by (app, kind, version). The store keeps one table and one serial counter per
  row type; a create assigns the next value of the counter
  (``generated by database primary key serial'') and appends the row, an update
  replaces the row that has the row's identifier, a retrieve returns the matching rows in
  table order. Any call may fail with a storage error: \<open>st_faults\<close> scripts the outcome
  of the calls to come, one entry per call, \<open>True\<close> for a failure; once the script is used
  up every call succeeds. A failed call changes nothing but the script.
\<close>

record store =
  st_apps :: "app list"
  st_app_seq :: go_int
  st_users :: "user list"
  st_treestates :: "tree_state list"
  st_tree_seq :: go_int
  st_kvstates :: "kv_state list"
  st_kv_seq :: go_int
  st_setstates :: "set_state list"
  st_set_seq :: go_int
  st_actions :: "action_row list"
  st_action_seq :: go_int
  st_faults :: "bool list"

definition tick :: "store \<Rightarrow> bool \<times> store" where
  "tick s = (case st_faults s of [] \<Rightarrow> (False, s) | f # fs \<Rightarrow> (f, s\<lparr>st_faults := fs\<rparr>))"

definition app_RetrieveAppByID :: "store \<Rightarrow> go_int \<Rightarrow> (app \<times> error option) \<times> store" where
  "app_RetrieveAppByID s appID =
     (case tick s of
        (True, s1) \<Rightarrow> ((zero_app, Some StorageFailure), s1)
      | (False, s1) \<Rightarrow>
          (case find (\<lambda>a. app_ID a = appID) (st_apps s1) of
             None \<Rightarrow> ((zero_app, Some RecordNotFound), s1)
           | Some a \<Rightarrow> ((a, None), s1)))"

definition app_Create :: "store \<Rightarrow> app \<Rightarrow> (go_int \<times> error option) \<times> store" where
  "app_Create s a =
     (case tick s of
        (True, s1) \<Rightarrow> ((0, Some StorageFailure), s1)
      | (False, s1) \<Rightarrow>
          (let newID = st_app_seq s1 + 1
           in ((newID, None), s1\<lparr>st_app_seq := newID, st_apps := st_apps s1 @ [a\<lparr>app_ID := newID\<rparr>]\<rparr>)))"

definition app_Update :: "store \<Rightarrow> app \<Rightarrow> error option \<times> store" where
  "app_Update s a =
     (case tick s of
        (True, s1) \<Rightarrow> (Some StorageFailure, s1)
      | (False, s1) \<Rightarrow>
          (None, s1\<lparr>st_apps := map (\<lambda>r. if app_ID r = app_ID a then a else r) (st_apps s1)\<rparr>))"

definition user_RetrieveByID :: "store \<Rightarrow> go_int \<Rightarrow> (user \<times> error option) \<times> store" where
  "user_RetrieveByID s uid =
     (case tick s of
        (True, s1) \<Rightarrow> ((zero_user, Some StorageFailure), s1)
      | (False, s1) \<Rightarrow>
          (case find (\<lambda>u. user_ID u = uid) (st_users s1) of
             None \<Rightarrow> ((zero_user, Some RecordNotFound), s1)
           | Some u \<Rightarrow> ((u, None), s1)))"

definition tree_RetrieveAllTypeTreeStatesByApp ::
  "store \<Rightarrow> go_int \<Rightarrow> go_int \<Rightarrow> (tree_state list \<times> error option) \<times> store" where
  "tree_RetrieveAllTypeTreeStatesByApp s appID version =
     (case tick s of
        (True, s1) \<Rightarrow> (([], Some StorageFailure), s1)
      | (False, s1) \<Rightarrow>
          ((filter (\<lambda>r. ts_AppRefID r = appID \<and> ts_Version r = version) (st_treestates s1),
            None), s1))"

definition tree_RetrieveTreeStatesByApp ::
  "store \<Rightarrow> go_int \<Rightarrow> state_type \<Rightarrow> go_int \<Rightarrow> (tree_state list \<times> error option) \<times> store" where
  "tree_RetrieveTreeStatesByApp s appID stateType version =
     (case tick s of
        (True, s1) \<Rightarrow> (([], Some StorageFailure), s1)
      | (False, s1) \<Rightarrow>
          ((filter (\<lambda>r. ts_AppRefID r = appID \<and> ts_StateType r = stateType
                         \<and> ts_Version r = version) (st_treestates s1),
            None), s1))"

text \<open>
  The tree-state create also writes the generated identifier into the row it was handed
  (the service holds the rows by pointer, and section 4.2 of the spec takes the rows after
  phase 1 as ``already inserted with new identifiers''); the row is the third component
  of the result.
\<close>

definition tree_Create ::
  "store \<Rightarrow> tree_state \<Rightarrow> (go_int \<times> error option \<times> tree_state) \<times> store" where
  "tree_Create s t =
     (case tick s of
        (True, s1) \<Rightarrow> ((0, Some StorageFailure, t), s1)
      | (False, s1) \<Rightarrow>
          (let newID = st_tree_seq s1 + 1; t' = t\<lparr>ts_ID := newID\<rparr>
           in ((newID, None, t'),
               s1\<lparr>st_tree_seq := newID, st_treestates := st_treestates s1 @ [t']\<rparr>)))"

definition tree_Update :: "store \<Rightarrow> tree_state \<Rightarrow> error option \<times> store" where
  "tree_Update s t =
     (case tick s of
        (True, s1) \<Rightarrow> (Some StorageFailure, s1)
      | (False, s1) \<Rightarrow>
          (None, s1\<lparr>st_treestates :=
                     map (\<lambda>r. if ts_ID r = ts_ID t then t else r) (st_treestates s1)\<rparr>))"

definition kv_RetrieveAllTypeKVStatesByApp ::
  "store \<Rightarrow> go_int \<Rightarrow> go_int \<Rightarrow> (kv_state list \<times> error option) \<times> store" where
  "kv_RetrieveAllTypeKVStatesByApp s appID version =
     (case tick s of
        (True, s1) \<Rightarrow> (([], Some StorageFailure), s1)
      | (False, s1) \<Rightarrow>
          ((filter (\<lambda>r. kv_AppRefID r = appID \<and> kv_Version r = version) (st_kvstates s1),
            None), s1))"

definition kv_RetrieveKVStatesByApp ::
  "store \<Rightarrow> go_int \<Rightarrow> state_type \<Rightarrow> go_int \<Rightarrow> (kv_state list \<times> error option) \<times> store" where
  "kv_RetrieveKVStatesByApp s appID stateType version =
     (case tick s of
        (True, s1) \<Rightarrow> (([], Some StorageFailure), s1)
      | (False, s1) \<Rightarrow>
          ((filter (\<lambda>r. kv_AppRefID r = appID \<and> kv_StateType r = stateType
                         \<and> kv_Version r = version) (st_kvstates s1),
            None), s1))"

definition kv_Create :: "store \<Rightarrow> kv_state \<Rightarrow> error option \<times> store" where
  "kv_Create s k =
     (case tick s of
        (True, s1) \<Rightarrow> (Some StorageFailure, s1)
      | (False, s1) \<Rightarrow>
          (let newID = st_kv_seq s1 + 1
           in (None, s1\<lparr>st_kv_seq := newID, st_kvstates := st_kvstates s1 @ [k\<lparr>kv_ID := newID\<rparr>]\<rparr>)))"

definition set_RetrieveSetStatesByApp ::
  "store \<Rightarrow> go_int \<Rightarrow> state_type \<Rightarrow> go_int \<Rightarrow> (set_state list \<times> error option) \<times> store" where
  "set_RetrieveSetStatesByApp s appID stateType version =
     (case tick s of
        (True, s1) \<Rightarrow> (([], Some StorageFailure), s1)
      | (False, s1) \<Rightarrow>
          ((filter (\<lambda>r. ss_AppRefID r = appID \<and> ss_StateType r = stateType
                         \<and> ss_Version r = version) (st_setstates s1),
            None), s1))"

definition set_Create :: "store \<Rightarrow> set_state \<Rightarrow> error option \<times> store" where
  "set_Create s x =
     (case tick s of
        (True, s1) \<Rightarrow> (Some StorageFailure, s1)
      | (False, s1) \<Rightarrow>
          (let newID = st_set_seq s1 + 1
           in (None, s1\<lparr>st_set_seq := newID, st_setstates := st_setstates s1 @ [x\<lparr>ss_ID := newID\<rparr>]\<rparr>)))"

definition action_RetrieveActionsByAppVersion ::
  "store \<Rightarrow> go_int \<Rightarrow> go_int \<Rightarrow> (action_row list \<times> error option) \<times> store" where
  "action_RetrieveActionsByAppVersion s appID version =
     (case tick s of
        (True, s1) \<Rightarrow> (([], Some StorageFailure), s1)
      | (False, s1) \<Rightarrow>
          ((filter (\<lambda>r. ar_App r = appID \<and> ar_Version r = version) (st_actions s1),
            None), s1))"

definition action_Create :: "store \<Rightarrow> action_row \<Rightarrow> (go_int \<times> error option) \<times> store" where
  "action_Create s a =
     (case tick s of
        (True, s1) \<Rightarrow> ((0, Some StorageFailure), s1)
      | (False, s1) \<Rightarrow>
          (let newID = st_action_seq s1 + 1
           in ((newID, None),
               s1\<lparr>st_action_seq := newID, st_actions := st_actions s1 @ [a\<lparr>ar_ID := newID\<rparr>]\<rparr>)))"

section \<open>The service: duplicating and releasing an app\<close>

record app_dto =
  dto_ID :: go_int
  dto_Name :: string
  dto_ReleaseVersion :: go_int
  dto_MainlineVersion :: go_int
  dto_CreatedBy :: go_int
  dto_UpdatedBy :: go_int
  dto_Modifier :: string

definition zero_app_dto :: app_dto where
  "zero_app_dto = \<lparr>dto_ID = 0, dto_Name = [], dto_ReleaseVersion = 0, dto_MainlineVersion = 0,
     dto_CreatedBy = 0, dto_UpdatedBy = 0, dto_Modifier = []\<rparr>"

subsection \<open>Tree state: create all rows, then rewrite the references\<close>

text \<open>
  The second loop of \<open>copyAllTreeState\<close> and of \<open>releaseTreeStateByApp\<close>: each row is
  created, and \<open>releaseIDMap[indexIDMap[i]] = id\<close> records its new identifier. The list
  pairs \<open>indexIDMap[i]\<close> with \<open>treestates[i]\<close>. The first failing create returns.
\<close>

fun treestate_create_loop ::
  "(go_int \<times> tree_state) list \<Rightarrow> (go_int \<rightharpoonup> go_int) \<Rightarrow> store
     \<Rightarrow> error option \<times> tree_state list \<times> (go_int \<rightharpoonup> go_int) \<times> store" where
  "treestate_create_loop [] releaseIDMap s = (None, [], releaseIDMap, s)"
| "treestate_create_loop ((oldID, treestate) # rest) releaseIDMap s =
     (case tree_Create s treestate of
        ((_, Some err, _), s1) \<Rightarrow> (Some err, [], releaseIDMap, s1)
      | ((newID, None, t'), s1) \<Rightarrow>
          (case treestate_create_loop rest (releaseIDMap(oldID \<mapsto> newID)) s1 of
             (e, ts, m, s2) \<Rightarrow> (e, t' # ts, m, s2)))"

text \<open>The body of the third loop: both references of a row go through the map.\<close>

definition relink :: "(go_int \<rightharpoonup> go_int) \<Rightarrow> tree_state \<Rightarrow> tree_state" where
  "relink releaseIDMap treestate =
     treestate\<lparr>ts_ChildrenNodeRefIDs := convertLink (ts_ChildrenNodeRefIDs treestate) releaseIDMap,
               ts_ParentNodeRefID := map_index releaseIDMap (ts_ParentNodeRefID treestate)\<rparr>"

fun treestate_update_loop ::
  "tree_state list \<Rightarrow> (go_int \<rightharpoonup> go_int) \<Rightarrow> store \<Rightarrow> error option \<times> store" where
  "treestate_update_loop [] releaseIDMap s = (None, s)"
| "treestate_update_loop (treestate # rest) releaseIDMap s =
     (case tree_Update s (relink releaseIDMap treestate) of
        (Some err, s1) \<Rightarrow> (Some err, s1)
      | (None, s1) \<Rightarrow> treestate_update_loop rest releaseIDMap s1)"

definition copyAllTreeState :: "store \<Rightarrow> go_int \<Rightarrow> go_int \<Rightarrow> go_int \<Rightarrow> error option \<times> store" where
  "copyAllTreeState s appA appB usr =
     (case tree_RetrieveAllTypeTreeStatesByApp s appA APP_EDIT_VERSION of
        ((_, Some err), s1) \<Rightarrow> (Some err, s1)
      | ((treestates, None), s1) \<Rightarrow>
          (let indexIDMap = map ts_ID treestates;
               treestates1 = map (\<lambda>t. t\<lparr>ts_ID := 0, ts_AppRefID := appB,
                   ts_Version := APP_EDIT_VERSION, ts_CreatedBy := usr, ts_UpdatedBy := usr\<rparr>)
                 treestates
           in case treestate_create_loop (zip indexIDMap treestates1) Map.empty s1 of
                (Some err, _, _, s2) \<Rightarrow> (Some err, s2)
              | (None, treestates2, releaseIDMap, s2) \<Rightarrow>
                  treestate_update_loop treestates2 releaseIDMap s2))"

definition releaseTreeStateByApp :: "store \<Rightarrow> app_dto \<Rightarrow> error option \<times> store" where
  "releaseTreeStateByApp s app =
     (case tree_RetrieveAllTypeTreeStatesByApp s (dto_ID app) APP_EDIT_VERSION of
        ((_, Some err), s1) \<Rightarrow> (Some err, s1)
      | ((treestates, None), s1) \<Rightarrow>
          (let indexIDMap = map ts_ID treestates;
               treestates1 = map (\<lambda>t. t\<lparr>ts_ID := 0, ts_Version := dto_MainlineVersion app\<rparr>)
                 treestates
           in case treestate_create_loop (zip indexIDMap treestates1) Map.empty s1 of
                (Some err, _, _, s2) \<Rightarrow> (Some err, s2)
              | (None, treestates2, releaseIDMap, s2) \<Rightarrow>
                  treestate_update_loop treestates2 releaseIDMap s2))"

subsection \<open>Key-value state, set state and actions: create all rows\<close>

fun kvstate_create_loop :: "kv_state list \<Rightarrow> store \<Rightarrow> error option \<times> store" where
  "kvstate_create_loop [] s = (None, s)"
| "kvstate_create_loop (kvstate # rest) s =
     (case kv_Create s kvstate of
        (Some err, s1) \<Rightarrow> (Some err, s1)
      | (None, s1) \<Rightarrow> kvstate_create_loop rest s1)"

fun setstate_create_loop :: "set_state list \<Rightarrow> store \<Rightarrow> error option \<times> store" where
  "setstate_create_loop [] s = (None, s)"
| "setstate_create_loop (setstate # rest) s =
     (case set_Create s setstate of
        (Some err, s1) \<Rightarrow> (Some err, s1)
      | (None, s1) \<Rightarrow> setstate_create_loop rest s1)"

fun action_create_loop :: "action_row list \<Rightarrow> store \<Rightarrow> error option \<times> store" where
  "action_create_loop [] s = (None, s)"
| "action_create_loop (action # rest) s =
     (case action_Create s action of
        ((_, Some err), s1) \<Rightarrow> (Some err, s1)
      | ((_, None), s1) \<Rightarrow> action_create_loop rest s1)"

definition copyAllKVState :: "store \<Rightarrow> go_int \<Rightarrow> go_int \<Rightarrow> go_int \<Rightarrow> error option \<times> store" where
  "copyAllKVState s appA appB usr =
     (case kv_RetrieveAllTypeKVStatesByApp s appA APP_EDIT_VERSION of
        ((_, Some err), s1) \<Rightarrow> (Some err, s1)
      | ((kvstates, None), s1) \<Rightarrow>
          kvstate_create_loop
            (map (\<lambda>k. k\<lparr>kv_ID := 0, kv_AppRefID := appB, kv_Version := APP_EDIT_VERSION,
                         kv_CreatedBy := usr, kv_UpdatedBy := usr\<rparr>) kvstates) s1)"

definition copyAllSetState :: "store \<Rightarrow> go_int \<Rightarrow> go_int \<Rightarrow> go_int \<Rightarrow> error option \<times> store" where
  "copyAllSetState s appA appB usr =
     (case set_RetrieveSetStatesByApp s appA SET_STATE_TYPE_DISPLAY_NAME APP_EDIT_VERSION of
        ((_, Some err), s1) \<Rightarrow> (Some err, s1)
      | ((setstates, None), s1) \<Rightarrow>
          setstate_create_loop
            (map (\<lambda>x. x\<lparr>ss_ID := 0, ss_AppRefID := appB, ss_Version := APP_EDIT_VERSION,
                         ss_CreatedBy := usr, ss_UpdatedBy := usr\<rparr>) setstates) s1)"

definition copyActions :: "store \<Rightarrow> go_int \<Rightarrow> go_int \<Rightarrow> go_int \<Rightarrow> error option \<times> store" where
  "copyActions s appA appB usr =
     (case action_RetrieveActionsByAppVersion s appA APP_EDIT_VERSION of
        ((_, Some err), s1) \<Rightarrow> (Some err, s1)
      | ((actions, None), s1) \<Rightarrow>
          action_create_loop
            (map (\<lambda>a. a\<lparr>ar_ID := 0, ar_App := appB, ar_Version := APP_EDIT_VERSION,
                         ar_CreatedBy := usr, ar_UpdatedBy := usr\<rparr>) actions) s1)"

definition releaseKVStateByApp :: "store \<Rightarrow> app_dto \<Rightarrow> error option \<times> store" where
  "releaseKVStateByApp s app =
     (case kv_RetrieveAllTypeKVStatesByApp s (dto_ID app) APP_EDIT_VERSION of
        ((_, Some err), s1) \<Rightarrow> (Some err, s1)
      | ((kvstates, None), s1) \<Rightarrow>
          kvstate_create_loop
            (map (\<lambda>k. k\<lparr>kv_ID := 0, kv_Version := dto_MainlineVersion app\<rparr>) kvstates) s1)"

definition releaseSetStateByApp :: "store \<Rightarrow> app_dto \<Rightarrow> error option \<times> store" where
  "releaseSetStateByApp s app =
     (case set_RetrieveSetStatesByApp s (dto_ID app) SET_STATE_TYPE_DISPLAY_NAME
             APP_EDIT_VERSION of
        ((_, Some err), s1) \<Rightarrow> (Some err, s1)
      | ((setstates, None), s1) \<Rightarrow>
          setstate_create_loop
            (map (\<lambda>x. x\<lparr>ss_ID := 0, ss_Version := dto_MainlineVersion app\<rparr>) setstates) s1)"

definition releaseActionsByApp :: "store \<Rightarrow> app_dto \<Rightarrow> error option \<times> store" where
  "releaseActionsByApp s app =
     (case action_RetrieveActionsByAppVersion s (dto_ID app) APP_EDIT_VERSION of
        ((_, Some err), s1) \<Rightarrow> (Some err, s1)
      | ((actions, None), s1) \<Rightarrow>
          action_create_loop
            (map (\<lambda>a. a\<lparr>ar_ID := 0, ar_Version := dto_MainlineVersion app\<rparr>) actions) s1)"

subsection \<open>The two coordinators\<close>

text \<open>
  \<open>DuplicateApp\<close> and \<open>ReleaseApp\<close> assign the error of every clone step to the blank
  identifier; only the store the step leaves behind is passed on.
\<close>

definition DuplicateApp ::
  "store \<Rightarrow> go_int \<Rightarrow> go_int \<Rightarrow> string \<Rightarrow> (app_dto \<times> error option) \<times> store" where
  "DuplicateApp s appID userID name =
     (case app_RetrieveAppByID s appID of
        ((_, Some err), s1) \<Rightarrow> ((zero_app_dto, Some err), s1)
      | ((appA0, None), s1) \<Rightarrow>
          (let appA = appA0\<lparr>app_ReleaseVersion := 0, app_MainlineVersion := 0,
                 app_CreatedBy := userID, app_UpdatedBy := userID\<rparr>
           in case app_Create s1 \<lparr>app_ID = 0, app_Name = name,
                     app_ReleaseVersion = app_ReleaseVersion appA,
                     app_MainlineVersion = app_MainlineVersion appA,
                     app_CreatedBy = app_CreatedBy appA, app_UpdatedBy = app_UpdatedBy appA\<rparr> of
                ((_, Some err), s2) \<Rightarrow> ((zero_app_dto, Some err), s2)
              | ((newID, None), s2) \<Rightarrow>
                  (let ((userRecord, _), s3) = user_RetrieveByID s2 userID;
                       appB = \<lparr>dto_ID = newID, dto_Name = name,
                         dto_ReleaseVersion = app_ReleaseVersion appA,
                         dto_MainlineVersion = app_MainlineVersion appA,
                         dto_CreatedBy = app_CreatedBy appA, dto_UpdatedBy = app_UpdatedBy appA,
                         dto_Modifier = user_Nickname userRecord\<rparr>;
                       (_, s4) = copyAllTreeState s3 appID (dto_ID appB) userID;
                       (_, s5) = copyAllKVState s4 appID (dto_ID appB) userID;
                       (_, s6) = copyAllSetState s5 appID (dto_ID appB) userID;
                       (_, s7) = copyActions s6 appID (dto_ID appB) userID
                   in ((appB, None), s7))))"

definition ReleaseApp :: "store \<Rightarrow> go_int \<Rightarrow> (go_int \<times> error option) \<times> store" where
  "ReleaseApp s appID =
     (case app_RetrieveAppByID s appID of
        ((_, Some err), s1) \<Rightarrow> ((- 1, None), s1)
      | ((app0, None), s1) \<Rightarrow>
          (let app1 = app0\<lparr>app_MainlineVersion := app_MainlineVersion app0 + 1\<rparr>;
               app2 = app1\<lparr>app_ReleaseVersion := app_MainlineVersion app1\<rparr>;
               dto = zero_app_dto\<lparr>dto_ID := appID, dto_MainlineVersion := app_MainlineVersion app2\<rparr>;
               (_, s2) = releaseTreeStateByApp s1 dto;
               (_, s3) = releaseKVStateByApp s2 dto;
               (_, s4) = releaseSetStateByApp s3 dto;
               (_, s5) = releaseActionsByApp s4 dto
           in case app_Update s5 app2 of
                (Some err, s6) \<Rightarrow> ((- 1, None), s6)
              | (None, s6) \<Rightarrow> ((app_ReleaseVersion app2, None), s6)))"

section \<open>The service: assembling the editor document\<close>

text \<open>
  A Go call either returns or panics; \<open>Panics\<close> is the run-time panic of an index out of
  range.
\<close>

datatype 'a go = Returns 'a | Panics

definition type_array :: "string list" where
  "type_array = [''transformer'', ''restapi'', ''graphql'', ''redis'', ''mysql'', ''mariadb'',
     ''postgresql'', ''mongodb'', ''tidb'', ''elasticsearch'', ''s3'', ''smtp'', ''supabasedb'',
     ''firebase'', ''clickhouse'', ''mssql'', ''huggingface'', ''dynamodb'', ''snowflake'',
     ''couchdb'', ''hfendpoint'', ''oracle'']"

text \<open>\<open>type_array[i]\<close> on the \<open>[22]string\<close>: Go checks the index at run time.\<close>

definition type_array_at :: "go_int \<Rightarrow> string go" where
  "type_array_at i =
     (if 0 \<le> sint i \<and> sint i < 22 then Returns (type_array ! nat (sint i)) else Panics)"

record action =
  act_ID :: go_int
  act_App :: go_int
  act_Version :: go_int
  act_Resource :: go_int
  act_DisplayName :: string
  act_Type :: string
  act_Template :: json_object
  act_Transformer :: json_object
  act_TriggerMode :: string
  act_CreatedBy :: go_int
  act_UpdatedBy :: go_int

text \<open>
  The values the service stores in a \<open>map[string]interface{}\<close> of the document: a decoded
  \<open>map[string]interface{}\<close>, or a string.
\<close>

datatype any = AnyObject json_object | AnyString string

record 'n editor =
  ed_AppInfo :: app_dto
  ed_Actions :: "action list option"
  ed_Components :: "'n option"
  ed_DependenciesState :: "(string \<rightharpoonup> string list option) option"
  ed_DragShadowState :: "(string \<rightharpoonup> any) option"
  ed_DottedLineSquareState :: "(string \<rightharpoonup> any) option"
  ed_DisplayNameState :: "string list option"

definition zero_editor :: "'n editor" where
  "zero_editor = \<lparr>ed_AppInfo = zero_app_dto, ed_Actions = None, ed_Components = None,
     ed_DependenciesState = None, ed_DragShadowState = None, ed_DottedLineSquareState = None,
     ed_DisplayNameState = None\<rparr>"

text \<open>
  Three callees of the assembler are taken as parameters. \<open>json_Unmarshal_strings\<close> and
  \<open>json_Unmarshal_object\<close> give what \<open>json.Unmarshal\<close> leaves in a fresh \<open>[]string\<close> and in
  a fresh \<open>map[string]interface{}\<close> (the callers drop its error; \<open>None\<close> is nil).
  \<open>buildComponentTree\<close> belongs to the same package and is defined outside
  \<open>service.go\<close>; \<open>'n\<close> is its \<open>ComponentNode\<close>, and its third argument is always nil here.
\<close>

record 'n externals =
  json_Unmarshal_strings :: "string \<Rightarrow> string list option"
  json_Unmarshal_object :: "string \<Rightarrow> json_object"
  buildComponentTree ::
    "tree_state \<Rightarrow> (go_int \<rightharpoonup> tree_state) \<Rightarrow> ('n option \<times> error option) go"

fun formatActions_loop :: "action_row list \<Rightarrow> action list \<Rightarrow> action list go" where
  "formatActions_loop [] resSlice = Returns resSlice"
| "formatActions_loop (v # rest) resSlice =
     (case type_array_at (ar_Type v) of
        Panics \<Rightarrow> Panics
      | Returns typeName \<Rightarrow>
          formatActions_loop rest
            (resSlice @ [\<lparr>act_ID = ar_ID v, act_App = 0, act_Version = 0,
               act_Resource = ar_Resource v, act_DisplayName = ar_Name v, act_Type = typeName,
               act_Template = ar_Template v, act_Transformer = ar_Transformer v,
               act_TriggerMode = ar_TriggerMode v, act_CreatedBy = ar_CreatedBy v,
               act_UpdatedBy = ar_UpdatedBy v\<rparr>]))"

definition formatActions ::
  "store \<Rightarrow> go_int \<Rightarrow> go_int \<Rightarrow> ((action list option \<times> error option) \<times> store) go" where
  "formatActions s appID version =
     (case action_RetrieveActionsByAppVersion s appID version of
        ((_, Some err), s1) \<Rightarrow> Returns ((None, Some err), s1)
      | ((res, None), s1) \<Rightarrow>
          (case formatActions_loop res [] of
             Panics \<Rightarrow> Panics
           | Returns resSlice \<Rightarrow> Returns ((Some resSlice, None), s1)))"

definition formatComponents ::
  "'n externals \<Rightarrow> store \<Rightarrow> go_int \<Rightarrow> go_int \<Rightarrow> (('n option \<times> error option) \<times> store) go" where
  "formatComponents x s appID version =
     (case tree_RetrieveTreeStatesByApp s appID TREE_STATE_TYPE_COMPONENTS version of
        ((_, Some err), s1) \<Rightarrow> Returns ((None, Some err), s1)
      | ((res, None), s1) \<Rightarrow>
          if length res = 0 then Returns ((None, Some NoComponent), s1)
          else (let (root, tempMap) =
                      foldl (\<lambda>(root, tempMap) component.
                               (if ts_Name component = TREE_STATE_SUMMIT_NAME then component else root,
                                tempMap(ts_ID component \<mapsto> component)))
                        (zero_tree_state, Map.empty) res
                in case buildComponentTree x root tempMap of
                     Panics \<Rightarrow> Panics
                   | Returns (resNode, _) \<Rightarrow> Returns ((resNode, None), s1)))"

definition formatDependenciesState ::
  "'n externals \<Rightarrow> store \<Rightarrow> go_int \<Rightarrow> go_int
     \<Rightarrow> ((string \<rightharpoonup> string list option) option \<times> error option) \<times> store" where
  "formatDependenciesState x s appID version =
     (case kv_RetrieveKVStatesByApp s appID KV_STATE_TYPE_DEPENDENCIES version of
        ((_, Some err), s1) \<Rightarrow> ((None, Some err), s1)
      | ((res, None), s1) \<Rightarrow>
          if length res = 0 then ((Some Map.empty, None), s1)
          else ((Some (foldl (\<lambda>resMap dependency.
                                resMap(kv_Key dependency \<mapsto>
                                  json_Unmarshal_strings x (kv_Value dependency)))
                         Map.empty res), None), s1))"

definition formatDragShadowState ::
  "'n externals \<Rightarrow> store \<Rightarrow> go_int \<Rightarrow> go_int
     \<Rightarrow> ((string \<rightharpoonup> any) option \<times> error option) \<times> store" where
  "formatDragShadowState x s appID version =
     (case kv_RetrieveKVStatesByApp s appID KV_STATE_TYPE_DRAG_SHADOW version of
        ((_, Some err), s1) \<Rightarrow> ((None, Some err), s1)
      | ((res, None), s1) \<Rightarrow>
          if length res = 0 then ((Some Map.empty, None), s1)
          else ((Some (foldl (\<lambda>resMap shadow.
                                resMap(kv_Key shadow \<mapsto>
                                  AnyObject (json_Unmarshal_object x (kv_Value shadow))))
                         Map.empty res), None), s1))"

text \<open>
  \<open>formatDottedLineSquareState\<close> decodes each value into \<open>revMsg\<close> as its sibling does,
  and then stores \<open>line.Value\<close>, the string.
\<close>

definition formatDottedLineSquareState ::
  "'n externals \<Rightarrow> store \<Rightarrow> go_int \<Rightarrow> go_int
     \<Rightarrow> ((string \<rightharpoonup> any) option \<times> error option) \<times> store" where
  "formatDottedLineSquareState x s appID version =
     (case kv_RetrieveKVStatesByApp s appID KV_STATE_TYPE_DOTTED_LINE_SQUARE version of
        ((_, Some err), s1) \<Rightarrow> ((None, Some err), s1)
      | ((res, None), s1) \<Rightarrow>
          if length res = 0 then ((Some Map.empty, None), s1)
          else ((Some (foldl (\<lambda>resMap line.
                                (let revMsg = json_Unmarshal_object x (kv_Value line)
                                 in resMap(kv_Key line \<mapsto> AnyString (kv_Value line))))
                         Map.empty res), None), s1))"

definition formatDisplayNameState ::
  "store \<Rightarrow> go_int \<Rightarrow> go_int \<Rightarrow> (string list option \<times> error option) \<times> store" where
  "formatDisplayNameState s appID version =
     (case set_RetrieveSetStatesByApp s appID SET_STATE_TYPE_DISPLAY_NAME version of
        ((_, Some err), s1) \<Rightarrow> ((None, Some err), s1)
      | ((res, None), s1) \<Rightarrow>
          if length res = 0 then ((Some [], None), s1)
          else ((Some (map ss_Value res), None), s1))"

definition fetchEditor ::
  "'n externals \<Rightarrow> store \<Rightarrow> go_int \<Rightarrow> go_int \<Rightarrow> (('n editor \<times> error option) \<times> store) go" where
  "fetchEditor x s appID version =
     (case app_RetrieveAppByID s appID of
        ((_, Some err), s1) \<Rightarrow> Returns ((zero_editor, Some err), s1)
      | ((app, None), s1) \<Rightarrow>
          if app_ID app = 0 \<or> sint (app_MainlineVersion app) < sint version
          then Returns ((zero_editor, Some ContentNotFound), s1)
          else (let ((userRecord, _), s2) = user_RetrieveByID s1 (app_UpdatedBy app);
                    appInfo = \<lparr>dto_ID = app_ID app, dto_Name = app_Name app,
                      dto_ReleaseVersion = app_ReleaseVersion app,
                      dto_MainlineVersion = app_MainlineVersion app,
                      dto_CreatedBy = 0, dto_UpdatedBy = app_UpdatedBy app,
                      dto_Modifier = user_Nickname userRecord\<rparr>
                in case formatActions s2 appID version of
                     Panics \<Rightarrow> Panics
                   | Returns ((actions, _), s3) \<Rightarrow>
                       (case formatComponents x s3 appID version of
                          Panics \<Rightarrow> Panics
                        | Returns ((components, _), s4) \<Rightarrow>
                            (let ((dependenciesState, _), s5) =
                                   formatDependenciesState x s4 appID version;
                                 ((dragShadowState, _), s6) =
                                   formatDragShadowState x s5 appID version;
                                 ((dottedLineSquareState, _), s7) =
                                   formatDottedLineSquareState x s6 appID version;
                                 ((displayNameState, _), s8) =
                                   formatDisplayNameState s7 appID version
                             in Returns ((\<lparr>ed_AppInfo = appInfo, ed_Actions = actions,
                                   ed_Components = components,
                                   ed_DependenciesState = dependenciesState,
                                   ed_DragShadowState = dragShadowState,
                                   ed_DottedLineSquareState = dottedLineSquareState,
                                   ed_DisplayNameState = displayNameState\<rparr>, None), s8)))))"

definition GetMegaData ::
  "'n externals \<Rightarrow> store \<Rightarrow> go_int \<Rightarrow> go_int \<Rightarrow> (('n editor \<times> error option) \<times> store) go" where
  "GetMegaData x s appID version =
     (case fetchEditor x s appID version of
        Panics \<Rightarrow> Panics
      | Returns ((_, Some err), s1) \<Rightarrow> Returns ((zero_editor, Some err), s1)
      | Returns ((editor, None), s1) \<Rightarrow> Returns ((editor, None), s1))"

section \<open>Properties of a run\<close>

text \<open>
  The script of storage outcomes tells what a step did: a step that starts with script
  \<open>fs\<close> and ends with \<open>fs'\<close> has used up the entries in front of \<open>fs'\<close>.
  \<open>calls_all_succeed fs fs'\<close>: none of the calls made failed.
  \<open>calls_stop_at_failure fs fs'\<close>: the calls made are successes followed by one failure,
  which is the last call made.
\<close>

definition calls_all_succeed :: "bool list \<Rightarrow> bool list \<Rightarrow> bool" where
  "calls_all_succeed fs fs' =
     (let n = length fs - length fs' in fs' = drop n fs \<and> True \<notin> set (take n fs))"

definition calls_stop_at_failure :: "bool list \<Rightarrow> bool list \<Rightarrow> bool" where
  "calls_stop_at_failure fs fs' = (dropWhile (\<lambda>b. \<not> b) fs = True # fs')"

text \<open>
  What a clone step may do: return nil after calls that all succeeded, or return the
  storage error of the call it stopped at.
\<close>

definition clone_step_outcome :: "store \<Rightarrow> error option \<Rightarrow> store \<Rightarrow> bool" where
  "clone_step_outcome s e s' =
     (case e of
        None \<Rightarrow> calls_all_succeed (st_faults s) (st_faults s')
      | Some err \<Rightarrow> err = StorageFailure \<and> calls_stop_at_failure (st_faults s) (st_faults s'))"

text \<open>
  The next \<open>n\<close> values of a serial counter that stands at \<open>c\<close>, and the condition that
  they are fresh for the tree-state table: pairwise distinct, not the sentinel 0, and not
  the identifier of a stored row. It holds when every stored identifier lies between 1
  and the counter and the counter does not wrap (\<open>fresh_ids_from_serial\<close> below).
\<close>

fun next_ids :: "go_int \<Rightarrow> nat \<Rightarrow> go_int list" where
  "next_ids c 0 = []"
| "next_ids c (Suc n) = (c + 1) # next_ids (c + 1) n"

definition fresh_ids :: "store \<Rightarrow> nat \<Rightarrow> bool" where
  "fresh_ids s n =
     (distinct (next_ids (st_tree_seq s) n)
      \<and> (\<forall>k \<in> set (next_ids (st_tree_seq s) n).
            k \<noteq> 0 \<and> k \<notin> set (map ts_ID (st_treestates s))))"

text \<open>
  The rows that the clone loops create from the pairs of old identifier and row, when
  the counter stands at \<open>c\<close> and no call fails.
\<close>

fun created_rows :: "(go_int \<times> tree_state) list \<Rightarrow> go_int \<Rightarrow> tree_state list" where
  "created_rows [] c = []"
| "created_rows ((oldID, t) # rest) c = t\<lparr>ts_ID := c + 1\<rparr> # created_rows rest (c + 1)"

text \<open>
  The draft tree rows of an app, in table order; a row set that is closed under its own
  references; and two row lists that are isomorphic under a renaming \<open>f\<close> of identifiers:
  the same number of rows, \<open>f\<close> injective on the source identifiers and the sentinel,
  which it keeps, and row by row the identifier, the parent reference and the decoded
  children list of the clone are the images under \<open>f\<close> of those of the source.
\<close>

definition draft_tree_rows :: "store \<Rightarrow> go_int \<Rightarrow> tree_state list" where
  "draft_tree_rows s appID =
     filter (\<lambda>r. ts_AppRefID r = appID \<and> ts_Version r = APP_EDIT_VERSION) (st_treestates s)"

definition closed_tree :: "tree_state list \<Rightarrow> bool" where
  "closed_tree src =
     (distinct (map ts_ID src) \<and> 0 \<notin> set (map ts_ID src)
      \<and> (\<forall>r \<in> set src.
            (ts_ParentNodeRefID r = 0 \<or> ts_ParentNodeRefID r \<in> set (map ts_ID src))
            \<and> (case json_unmarshal_ints (ts_ChildrenNodeRefIDs r) of
                  None \<Rightarrow> False
                | Some ids \<Rightarrow> set ids \<subseteq> set (map ts_ID src))))"

definition tree_isomorphic ::
  "(go_int \<Rightarrow> go_int) \<Rightarrow> tree_state list \<Rightarrow> tree_state list \<Rightarrow> bool" where
  "tree_isomorphic f src cln =
     (length cln = length src
      \<and> f 0 = 0
      \<and> inj_on f (insert 0 (set (map ts_ID src)))
      \<and> (\<forall>i < length src.
            ts_ID (cln ! i) = f (ts_ID (src ! i))
            \<and> ts_ParentNodeRefID (cln ! i) = f (ts_ParentNodeRefID (src ! i))
            \<and> json_unmarshal_ints (ts_ChildrenNodeRefIDs (cln ! i))
                = map_option (map f) (json_unmarshal_ints (ts_ChildrenNodeRefIDs (src ! i)))))"

text \<open>
  An action whose type indexes \<open>type_array\<close> within bounds; whether a call panicked; and
  the value of a key in a kv-state map of the document.
\<close>

definition type_in_range :: "action_row \<Rightarrow> bool" where
  "type_in_range r = (0 \<le> sint (ar_Type r) \<and> sint (ar_Type r) < 22)"

definition panics :: "'a go \<Rightarrow> bool" where
  "panics r = (case r of Panics \<Rightarrow> True | Returns _ \<Rightarrow> False)"

definition lookup_state :: "(string \<rightharpoonup> any) option \<Rightarrow> string \<Rightarrow> any option" where
  "lookup_state m k = (case m of None \<Rightarrow> None | Some f \<Rightarrow> f k)"

section \<open>Sample inputs\<close>

text \<open>
  App 1 with its draft: a root with two leaves, a dotted-line-square row and a
  drag-shadow row with the same key and value, one display name and one action. No
  storage call fails.
\<close>

definition demo_store :: store where
  "demo_store =
     \<lparr>st_apps = [\<lparr>app_ID = 1, app_Name = ''shop'', app_ReleaseVersion = 0,
                   app_MainlineVersion = 0, app_CreatedBy = 9, app_UpdatedBy = 9\<rparr>],
      st_app_seq = 1,
      st_users = [\<lparr>user_ID = 9, user_Nickname = ''ann''\<rparr>],
      st_treestates =
        [\<lparr>ts_ID = 1, ts_StateType = TREE_STATE_TYPE_COMPONENTS, ts_ParentNodeRefID = 0,
          ts_ChildrenNodeRefIDs = ''[2,3]'', ts_AppRefID = 1, ts_Version = 0,
          ts_Name = ''root'', ts_Content = ''{}'', ts_CreatedBy = 9, ts_UpdatedBy = 9\<rparr>,
         \<lparr>ts_ID = 2, ts_StateType = TREE_STATE_TYPE_COMPONENTS, ts_ParentNodeRefID = 1,
          ts_ChildrenNodeRefIDs = ''[]'', ts_AppRefID = 1, ts_Version = 0,
          ts_Name = ''button1'', ts_Content = ''{}'', ts_CreatedBy = 9, ts_UpdatedBy = 9\<rparr>,
         \<lparr>ts_ID = 3, ts_StateType = TREE_STATE_TYPE_COMPONENTS, ts_ParentNodeRefID = 1,
          ts_ChildrenNodeRefIDs = ''[]'', ts_AppRefID = 1, ts_Version = 0,
          ts_Name = ''input1'', ts_Content = ''{}'', ts_CreatedBy = 9, ts_UpdatedBy = 9\<rparr>],
      st_tree_seq = 3,
      st_kvstates =
        [\<lparr>kv_ID = 1, kv_StateType = KV_STATE_TYPE_DOTTED_LINE_SQUARE, kv_AppRefID = 1,
          kv_Version = 0, kv_Key = ''button1'', kv_Value = ''{}'', kv_CreatedBy = 9,
          kv_UpdatedBy = 9\<rparr>,
         \<lparr>kv_ID = 2, kv_StateType = KV_STATE_TYPE_DRAG_SHADOW, kv_AppRefID = 1,
          kv_Version = 0, kv_Key = ''button1'', kv_Value = ''{}'', kv_CreatedBy = 9,
          kv_UpdatedBy = 9\<rparr>],
      st_kv_seq = 2,
      st_setstates =
        [\<lparr>ss_ID = 1, ss_StateType = SET_STATE_TYPE_DISPLAY_NAME, ss_AppRefID = 1,
          ss_Version = 0, ss_Value = ''button1'', ss_CreatedBy = 9, ss_UpdatedBy = 9\<rparr>],
      st_set_seq = 1,
      st_actions =
        [\<lparr>ar_ID = 1, ar_App = 1, ar_Version = 0, ar_Resource = 4, ar_Name = ''query1'',
          ar_Type = 4, ar_Template = None, ar_Transformer = None, ar_TriggerMode = ''manually'',
          ar_CreatedBy = 9, ar_UpdatedBy = 9\<rparr>],
      st_action_seq = 1,
      st_faults = []\<rparr>"

text \<open>
  The same store where the third storage call fails; where the stored action has type 22;
  and without tree rows.
\<close>

definition faulty_store :: store where
  "faulty_store = demo_store\<lparr>st_faults := [False, False, True]\<rparr>"

definition bad_action_store :: store where
  "bad_action_store =
     demo_store\<lparr>st_actions :=
       [\<lparr>ar_ID = 1, ar_App = 1, ar_Version = 0, ar_Resource = 4, ar_Name = ''query1'',
         ar_Type = 22, ar_Template = None, ar_Transformer = None, ar_TriggerMode = ''manually'',
         ar_CreatedBy = 9, ar_UpdatedBy = 9\<rparr>]\<rparr>"

definition no_tree_store :: store where
  "no_tree_store = demo_store\<lparr>st_treestates := []\<rparr>"

text \<open>
  Sample callees for the assembler: the two decoders know the values of the sample store,
  and the tree builder returns the name of the root.
\<close>

definition demo_externals :: "string externals" where
  "demo_externals =
     \<lparr>json_Unmarshal_strings = (\<lambda>v. if v = ''[]'' then Some [] else None),
      json_Unmarshal_object = (\<lambda>v. if v = ''{}'' then Some [] else None),
      buildComponentTree = (\<lambda>root tempMap. Returns (Some (ts_Name root), None))\<rparr>"

text \<open>
  Identifier maps, a row with a parent reference and a children reference that resolve
  nowhere, and the pairs that the create loop gets for the draft of app 1.
\<close>

definition demo_identity_map :: "go_int \<rightharpoonup> go_int" where
  "demo_identity_map = [1 \<mapsto> 1, 2 \<mapsto> 2, 3 \<mapsto> 3]"

definition no_ids :: "go_int \<rightharpoonup> go_int" where
  "no_ids = Map.empty"

definition dangling_row :: tree_state where
  "dangling_row =
     \<lparr>ts_ID = 3, ts_StateType = TREE_STATE_TYPE_COMPONENTS, ts_ParentNodeRefID = 7,
      ts_ChildrenNodeRefIDs = ''[2,8]'', ts_AppRefID = 1, ts_Version = 0,
      ts_Name = ''input1'', ts_Content = ''{}'', ts_CreatedBy = 9, ts_UpdatedBy = 9\<rparr>"

definition demo_pairs :: "(go_int \<times> tree_state) list" where
  "demo_pairs = zip (map ts_ID (st_treestates demo_store)) (st_treestates demo_store)"

section \<open>The codec: decoding what was encoded\<close>

lemma lt10_cases: "0 \<le> d \<Longrightarrow> d < 10 \<Longrightarrow> d \<in> {0, 1, 2, 3, 4, 5, 6, 7, 8, 9 :: int}"
  by simp presburger

lemma digit_char_props:
  assumes "0 \<le> d" "d < 10"
  shows "is_digit (digit_char d)" and "digit_val (digit_char d) = d"
    and "(digit_char d = CHR ''0'') = (d = 0)"
  using lt10_cases [OF assms]
  by (auto simp: is_digit_def digit_val_def digit_char_def)

lemma digits_value_snoc: "digits_value (ds @ [c]) = 10 * digits_value ds + digit_val c"
  by (simp add: digits_value_def)

lemma show_nat_digits: "0 \<le> n \<Longrightarrow> \<forall>c \<in> set (show_nat n). is_digit c"
proof (induction n rule: show_nat.induct)
  case (1 n)
  then show ?case
    by (subst show_nat.simps) (auto simp: digit_char_props pos_imp_zdiv_nonneg_iff)
qed

lemma show_nat_nonempty: "show_nat n \<noteq> []"
  by (subst show_nat.simps) simp

lemma digits_value_show_nat: "0 \<le> n \<Longrightarrow> digits_value (show_nat n) = n"
proof (induction n rule: show_nat.induct)
  case (1 n)
  show ?case
  proof (cases "n < 10")
    case True
    with 1(2) show ?thesis
      by (subst show_nat.simps) (simp add: digits_value_def digit_char_props)
  next
    case False
    with 1 show ?thesis
      by (subst show_nat.simps)
        (simp add: digits_value_snoc digit_char_props pos_imp_zdiv_nonneg_iff)
  qed
qed

lemma hd_show_nat: "0 \<le> n \<Longrightarrow> hd (show_nat n) = CHR ''0'' \<Longrightarrow> n = 0"
proof (induction n rule: show_nat.induct)
  case (1 n)
  show ?case
  proof (cases "n < 10")
    case True
    with 1(2,3) show ?thesis
      by (subst (asm) show_nat.simps) (simp add: digit_char_props)
  next
    case False
    with 1(3) have "hd (show_nat (n div 10)) = CHR ''0''"
      by (subst (asm) show_nat.simps) (simp add: show_nat_nonempty)
    with 1(1,2) False have "n div 10 = 0" by (simp add: pos_imp_zdiv_nonneg_iff)
    with False 1(2) show ?thesis by simp
  qed
qed

lemma show_nat_0: "show_nat 0 = ''0''"
  by (subst show_nat.simps) (simp add: digit_char_def)

lemma takeWhile_digits:
  "0 \<le> n \<Longrightarrow> \<not> is_digit c \<Longrightarrow> takeWhile is_digit (show_nat n @ c # rest) = show_nat n"
  "0 \<le> n \<Longrightarrow> \<not> is_digit c \<Longrightarrow> dropWhile is_digit (show_nat n @ c # rest) = c # rest"
  using show_nat_digits [of n] by (simp_all add: takeWhile_append2 dropWhile_append2)

lemma scan_number_show:
  assumes "\<not> is_digit c"
  shows "scan_number (show_int (sint (w :: go_int)) @ c # rest) = Some (w, c # rest)"
proof -
  have rng: "- (2 ^ 63) \<le> sint w" "sint w < 2 ^ 63"
    using sint_ge [of w] sint_lt [of w] by simp_all
  have lead: "\<not> (hd (show_nat n) = CHR ''0'' \<and> 1 < length (show_nat n))" if "0 \<le> n" for n
  proof
    assume h: "hd (show_nat n) = CHR ''0'' \<and> 1 < length (show_nat n)"
    with that have "n = 0" by (auto dest: hd_show_nat)
    with h show False by (simp add: show_nat_0)
  qed
  have nd: "hd (show_nat n) \<noteq> CHR ''-''" if "0 \<le> n" for n
    using show_nat_digits [OF that] show_nat_nonempty [of n]
    by (cases "show_nat n") (auto simp: is_digit_def)
  show ?thesis
  proof (cases "sint w < 0")
    case True
    then show ?thesis
      using rng lead [of "- sint w"] assms
      by (simp add: scan_number_def show_int_def takeWhile_digits show_nat_nonempty
          digits_value_show_nat Let_def)
  next
    case False
    then show ?thesis
      using rng lead [of "sint w"] nd [of "sint w"] assms show_nat_nonempty [of "sint w"]
      by (simp add: scan_number_def show_int_def takeWhile_digits
          digits_value_show_nat Let_def hd_append)
  qed
qed

lemma show_nat_hd: "0 \<le> n \<Longrightarrow> \<exists>x xs. show_nat n = x # xs \<and> is_digit x"
  using show_nat_digits [of n] show_nat_nonempty [of n]
  by (cases "show_nat n") simp_all

lemma show_int_Cons:
  "\<exists>x xs. show_int i = x # xs \<and> (x = CHR ''-'' \<or> is_digit x)"
proof (cases "i < 0")
  case True
  then show ?thesis by (simp add: show_int_def)
next
  case False
  then show ?thesis using show_nat_hd [of i] by (auto simp: show_int_def)
qed

lemma show_int_hd:
  "show_int i \<noteq> []"
  "\<not> is_ws (hd (show_int i))"
  "hd (show_int i) \<noteq> CHR ''n''"
  "hd (show_int i) \<noteq> CHR '']''"
proof -
  obtain x xs where "show_int i = x # xs" "x = CHR ''-'' \<or> is_digit x"
    using show_int_Cons by blast
  then show "show_int i \<noteq> []" "\<not> is_ws (hd (show_int i))" "hd (show_int i) \<noteq> CHR ''n''"
    "hd (show_int i) \<noteq> CHR '']''"
    by (auto simp: is_digit_def is_ws_def)
qed

lemma skip_ws_id: "s \<noteq> [] \<Longrightarrow> \<not> is_ws (hd s) \<Longrightarrow> skip_ws s = s"
  by (cases s) (simp_all add: skip_ws_def)

lemma scan_elem_show:
  assumes "\<not> is_digit c"
  shows "scan_elem (show_int (sint (w :: go_int)) @ c # rest) = Some (w, c # rest)"
proof -
  obtain x xs where sx: "show_int (sint w) = x # xs" and "x \<noteq> CHR ''n''"
    using show_int_hd(1,3) [of "sint w"] by (cases "show_int (sint w)") auto
  then have "take 4 (show_int (sint w) @ c # rest) \<noteq> ''null''"
    by (auto simp: take_Cons')
  then show ?thesis
    using assms by (simp add: scan_elem_def scan_number_show)
qed

lemma join_commas_Cons:
  "join_commas (x # xs) = x @ (if xs = [] then [] else CHR '','' # join_commas xs)"
  by (cases xs) simp_all

lemma scan_elems_marshal:
  "scan_elems (join_commas (map (\<lambda>w. show_int (sint w)) (x # xs)) @ CHR '']'' # rest)
     = Some (x # xs, rest)"
proof (induction xs arbitrary: x)
  case Nil
  show ?case
    by (subst scan_elems.simps)
      (simp add: scan_elem_show is_digit_def skip_ws_id is_ws_def)
next
  case (Cons y ys)
  let ?tail = "join_commas (map (\<lambda>w. show_int (sint w)) (y # ys)) @ CHR '']'' # rest"
  have hdtail: "?tail \<noteq> []" "\<not> is_ws (hd ?tail)"
    using show_int_hd(1,2) [of "sint y"] by (simp_all add: join_commas_Cons hd_append)
  have e: "scan_elem (show_int (sint x) @ CHR '','' # ?tail) = Some (x, CHR '','' # ?tail)"
    by (rule scan_elem_show) (simp add: is_digit_def)
  have s1: "skip_ws (CHR '','' # ?tail) = CHR '','' # ?tail"
    by (simp add: skip_ws_def is_ws_def)
  have s2: "skip_ws ?tail = ?tail"
    by (rule skip_ws_id [OF hdtail])
  have "scan_elems (show_int (sint x) @ CHR '','' # ?tail) = Some (x # y # ys, rest)"
    by (subst scan_elems.simps)
      (simp only: e s1 s2 Cons.IH option.case prod.case list.case if_True simp_thms)
  then show ?case by simp
qed

lemma unmarshal_marshal: "json_unmarshal_ints (json_marshal_ints ids) = Some ids"
proof (cases ids)
  case Nil
  then show ?thesis
    by (simp add: json_unmarshal_ints_def json_marshal_ints_def skip_ws_def is_ws_def)
next
  case (Cons x xs)
  let ?body = "join_commas (map (\<lambda>w. show_int (sint w)) (x # xs)) @ '']''"
  obtain d t where dt: "?body = d # t" and d: "\<not> is_ws d" "d \<noteq> CHR '']''"
    using show_int_hd [of "sint x"]
    by (cases "show_int (sint x)") (auto simp: join_commas_Cons)
  have "scan_elems (d # t) = Some (x # xs, [])"
    using scan_elems_marshal [of x xs "[]"] dt by simp
  then show ?thesis
    using Cons dt d
    by (simp add: json_unmarshal_ints_def json_marshal_ints_def skip_ws_def is_ws_def)
qed

section \<open>Storage calls of a clone step\<close>

lemma calls_all_succeed_iff:
  "calls_all_succeed fs fs' \<longleftrightarrow> (\<exists>pre. fs = pre @ fs' \<and> True \<notin> set pre)"
proof
  assume a: "calls_all_succeed fs fs'"
  let ?n = "length fs - length fs'"
  from a have d: "fs' = drop ?n fs" and t: "True \<notin> set (take ?n fs)"
    by (simp_all add: calls_all_succeed_def Let_def)
  from d have "fs = take ?n fs @ fs'"
    by (metis append_take_drop_id)
  with t show "\<exists>pre. fs = pre @ fs' \<and> True \<notin> set pre" by blast
next
  assume "\<exists>pre. fs = pre @ fs' \<and> True \<notin> set pre"
  then obtain pre where "fs = pre @ fs'" "True \<notin> set pre" by blast
  then show "calls_all_succeed fs fs'"
    by (simp add: calls_all_succeed_def)
qed

lemma calls_stop_at_failure_iff:
  "calls_stop_at_failure fs fs' \<longleftrightarrow> (\<exists>pre. fs = pre @ True # fs' \<and> True \<notin> set pre)"
proof
  assume a: "calls_stop_at_failure fs fs'"
  have "fs = takeWhile (\<lambda>b. \<not> b) fs @ dropWhile (\<lambda>b. \<not> b) fs" by simp
  with a have "fs = takeWhile (\<lambda>b. \<not> b) fs @ True # fs'"
    by (simp add: calls_stop_at_failure_def)
  moreover have "True \<notin> set (takeWhile (\<lambda>b. \<not> b) fs)"
    by (auto dest: set_takeWhileD)
  ultimately show "\<exists>pre. fs = pre @ True # fs' \<and> True \<notin> set pre" by blast
next
  assume "\<exists>pre. fs = pre @ True # fs' \<and> True \<notin> set pre"
  then obtain pre where p: "fs = pre @ True # fs'" "True \<notin> set pre" by blast
  then have "dropWhile (\<lambda>b. \<not> b) fs = dropWhile (\<lambda>b. \<not> b) (True # fs')"
    by (auto simp: dropWhile_append)
  then show "calls_stop_at_failure fs fs'"
    by (simp add: calls_stop_at_failure_def)
qed

lemma calls_all_succeed_refl: "calls_all_succeed fs fs"
  by (simp add: calls_all_succeed_def)

lemma calls_all_succeed_trans:
  "calls_all_succeed a b \<Longrightarrow> calls_all_succeed b c \<Longrightarrow> calls_all_succeed a c"
  unfolding calls_all_succeed_iff
  by (metis Un_iff append.assoc set_append)

lemma calls_then_failure:
  "calls_all_succeed a b \<Longrightarrow> calls_stop_at_failure b c \<Longrightarrow> calls_stop_at_failure a c"
  unfolding calls_all_succeed_iff calls_stop_at_failure_iff
  by (metis Un_iff append.assoc set_append)

lemma outcome_then:
  "clone_step_outcome s None s1 \<Longrightarrow> clone_step_outcome s1 e s2 \<Longrightarrow> clone_step_outcome s e s2"
  by (auto simp: clone_step_outcome_def split: option.splits
      intro: calls_all_succeed_trans calls_then_failure)

lemma tick_outcome:
  "tick s = (b, s1) \<Longrightarrow> clone_step_outcome s (if b then Some StorageFailure else None) s1"
  by (auto simp: tick_def clone_step_outcome_def calls_all_succeed_def
      calls_stop_at_failure_def split: list.splits)

lemma tree_Retrieve_outcome:
  "tree_RetrieveAllTypeTreeStatesByApp s a v = ((rows, e), s1) \<Longrightarrow> clone_step_outcome s e s1"
  using tick_outcome [of s]
  by (auto simp: tree_RetrieveAllTypeTreeStatesByApp_def split: prod.splits bool.splits)

lemma tree_Create_outcome:
  "tree_Create s t = ((n, e, t'), s1) \<Longrightarrow> clone_step_outcome s e s1"
  using tick_outcome [of s]
  by (auto simp: tree_Create_def Let_def clone_step_outcome_def split: prod.splits bool.splits)

lemma tree_Update_outcome:
  "tree_Update s t = (e, s1) \<Longrightarrow> clone_step_outcome s e s1"
  using tick_outcome [of s]
  by (auto simp: tree_Update_def clone_step_outcome_def split: prod.splits bool.splits)

lemma treestate_create_loop_outcome:
  "treestate_create_loop pairs m s = (e, rows, m', s') \<Longrightarrow> clone_step_outcome s e s'"
proof (induction pairs arbitrary: m s rows)
  case Nil
  then show ?case by (simp add: clone_step_outcome_def calls_all_succeed_refl)
next
  case (Cons p pairs)
  obtain oldID t where p: "p = (oldID, t)" by (cases p)
  obtain n e1 t' s1 where c: "tree_Create s t = ((n, e1, t'), s1)"
    by (metis prod_cases3 surj_pair)
  show ?case
  proof (cases e1)
    case None
    with Cons.prems p c obtain rows1 where
      "treestate_create_loop pairs (m(oldID \<mapsto> n)) s1 = (e, rows1, m', s')"
      by (auto split: prod.splits)
    from Cons.IH [OF this] tree_Create_outcome [OF c] None show ?thesis
      by (auto intro: outcome_then)
  next
    case (Some err)
    with Cons.prems p c tree_Create_outcome [OF c] show ?thesis by auto
  qed
qed

lemma treestate_update_loop_outcome:
  "treestate_update_loop rows m s = (e, s') \<Longrightarrow> clone_step_outcome s e s'"
proof (induction rows arbitrary: s)
  case Nil
  then show ?case by (simp add: clone_step_outcome_def calls_all_succeed_refl)
next
  case (Cons t rows)
  obtain e1 s1 where u: "tree_Update s (relink m t) = (e1, s1)" by (cases "tree_Update s (relink m t)")
  show ?case
  proof (cases e1)
    case None
    with Cons.prems u have "treestate_update_loop rows m s1 = (e, s')" by simp
    from Cons.IH [OF this] tree_Update_outcome [OF u] None show ?thesis
      by (auto intro: outcome_then)
  next
    case (Some err)
    with Cons.prems u tree_Update_outcome [OF u] show ?thesis by auto
  qed
qed

lemma copyAllTreeState_outcome:
  "copyAllTreeState s appA appB usr = (e, s') \<Longrightarrow> clone_step_outcome s e s'"
  unfolding copyAllTreeState_def Let_def
  by (auto split: prod.splits option.splits
      dest!: tree_Retrieve_outcome treestate_create_loop_outcome treestate_update_loop_outcome
      intro: outcome_then)

lemma releaseTreeStateByApp_outcome:
  "releaseTreeStateByApp s app = (e, s') \<Longrightarrow> clone_step_outcome s e s'"
  unfolding releaseTreeStateByApp_def Let_def
  by (auto split: prod.splits option.splits
      dest!: tree_Retrieve_outcome treestate_create_loop_outcome treestate_update_loop_outcome
      intro: outcome_then)

lemma kv_Retrieve_outcome:
  "kv_RetrieveAllTypeKVStatesByApp s a v = ((rows, e), s1) \<Longrightarrow> clone_step_outcome s e s1"
  using tick_outcome [of s]
  by (auto simp: kv_RetrieveAllTypeKVStatesByApp_def split: prod.splits bool.splits)

lemma set_Retrieve_outcome:
  "set_RetrieveSetStatesByApp s a k v = ((rows, e), s1) \<Longrightarrow> clone_step_outcome s e s1"
  using tick_outcome [of s]
  by (auto simp: set_RetrieveSetStatesByApp_def split: prod.splits bool.splits)

lemma action_Retrieve_outcome:
  "action_RetrieveActionsByAppVersion s a v = ((rows, e), s1) \<Longrightarrow> clone_step_outcome s e s1"
  using tick_outcome [of s]
  by (auto simp: action_RetrieveActionsByAppVersion_def split: prod.splits bool.splits)

lemma kv_Create_outcome: "kv_Create s k = (e, s1) \<Longrightarrow> clone_step_outcome s e s1"
  using tick_outcome [of s]
  by (auto simp: kv_Create_def Let_def clone_step_outcome_def split: prod.splits bool.splits)

lemma set_Create_outcome: "set_Create s k = (e, s1) \<Longrightarrow> clone_step_outcome s e s1"
  using tick_outcome [of s]
  by (auto simp: set_Create_def Let_def clone_step_outcome_def split: prod.splits bool.splits)

lemma action_Create_outcome: "action_Create s k = ((n, e), s1) \<Longrightarrow> clone_step_outcome s e s1"
  using tick_outcome [of s]
  by (auto simp: action_Create_def Let_def clone_step_outcome_def split: prod.splits bool.splits)

lemma kvstate_create_loop_outcome:
  "kvstate_create_loop rows s = (e, s') \<Longrightarrow> clone_step_outcome s e s'"
proof (induction rows arbitrary: s)
  case Nil
  then show ?case by (simp add: clone_step_outcome_def calls_all_succeed_refl)
next
  case (Cons k rows)
  obtain e1 s1 where c: "kv_Create s k = (e1, s1)" by (cases "kv_Create s k")
  with Cons.prems Cons.IH [of s1] kv_Create_outcome [OF c] show ?case
    by (cases e1) (auto intro: outcome_then)
qed

lemma setstate_create_loop_outcome:
  "setstate_create_loop rows s = (e, s') \<Longrightarrow> clone_step_outcome s e s'"
proof (induction rows arbitrary: s)
  case Nil
  then show ?case by (simp add: clone_step_outcome_def calls_all_succeed_refl)
next
  case (Cons k rows)
  obtain e1 s1 where c: "set_Create s k = (e1, s1)" by (cases "set_Create s k")
  with Cons.prems Cons.IH [of s1] set_Create_outcome [OF c] show ?case
    by (cases e1) (auto intro: outcome_then)
qed

lemma action_create_loop_outcome:
  "action_create_loop rows s = (e, s') \<Longrightarrow> clone_step_outcome s e s'"
proof (induction rows arbitrary: s)
  case Nil
  then show ?case by (simp add: clone_step_outcome_def calls_all_succeed_refl)
next
  case (Cons k rows)
  obtain n e1 s1 where c: "action_Create s k = ((n, e1), s1)"
    by (metis surj_pair)
  with Cons.prems Cons.IH [of s1] action_Create_outcome [OF c] show ?case
    by (cases e1) (auto intro: outcome_then)
qed

lemma copyAllKVState_outcome:
  "copyAllKVState s appA appB usr = (e, s') \<Longrightarrow> clone_step_outcome s e s'"
  unfolding copyAllKVState_def
  by (auto split: prod.splits option.splits
      dest!: kv_Retrieve_outcome kvstate_create_loop_outcome intro: outcome_then)

lemma copyAllSetState_outcome:
  "copyAllSetState s appA appB usr = (e, s') \<Longrightarrow> clone_step_outcome s e s'"
  unfolding copyAllSetState_def
  by (auto split: prod.splits option.splits
      dest!: set_Retrieve_outcome setstate_create_loop_outcome intro: outcome_then)

lemma copyActions_outcome:
  "copyActions s appA appB usr = (e, s') \<Longrightarrow> clone_step_outcome s e s'"
  unfolding copyActions_def
  by (auto split: prod.splits option.splits
      dest!: action_Retrieve_outcome action_create_loop_outcome intro: outcome_then)

lemma releaseKVStateByApp_outcome:
  "releaseKVStateByApp s app = (e, s') \<Longrightarrow> clone_step_outcome s e s'"
  unfolding releaseKVStateByApp_def
  by (auto split: prod.splits option.splits
      dest!: kv_Retrieve_outcome kvstate_create_loop_outcome intro: outcome_then)

lemma releaseSetStateByApp_outcome:
  "releaseSetStateByApp s app = (e, s') \<Longrightarrow> clone_step_outcome s e s'"
  unfolding releaseSetStateByApp_def
  by (auto split: prod.splits option.splits
      dest!: set_Retrieve_outcome setstate_create_loop_outcome intro: outcome_then)

lemma releaseActionsByApp_outcome:
  "releaseActionsByApp s app = (e, s') \<Longrightarrow> clone_step_outcome s e s'"
  unfolding releaseActionsByApp_def
  by (auto split: prod.splits option.splits
      dest!: action_Retrieve_outcome action_create_loop_outcome intro: outcome_then)

lemma DuplicateApp_error:
  "(snd (fst (DuplicateApp s appID userID name)) = None) =
   (snd (fst (app_RetrieveAppByID s appID)) = None
    \<and> snd (fst (app_Create (snd (app_RetrieveAppByID s appID))
          \<lparr>app_ID = 0, app_Name = name, app_ReleaseVersion = 0, app_MainlineVersion = 0,
           app_CreatedBy = userID, app_UpdatedBy = userID\<rparr>)) = None)"
  unfolding DuplicateApp_def Let_def app_Create_def
  by (auto split: prod.splits option.splits bool.splits)



lemma tick_apps: "tick s = (b, s1) \<Longrightarrow> st_apps s1 = st_apps s"
  by (auto simp: tick_def split: list.splits)

lemma tree_Retrieve_apps:
  "tree_RetrieveAllTypeTreeStatesByApp s a v = (r, s1) \<Longrightarrow> st_apps s1 = st_apps s"
  by (auto simp: tree_RetrieveAllTypeTreeStatesByApp_def split: prod.splits bool.splits
      dest: tick_apps)

lemma kv_Retrieve_apps:
  "kv_RetrieveAllTypeKVStatesByApp s a v = (r, s1) \<Longrightarrow> st_apps s1 = st_apps s"
  by (auto simp: kv_RetrieveAllTypeKVStatesByApp_def split: prod.splits bool.splits
      dest: tick_apps)

lemma set_Retrieve_apps:
  "set_RetrieveSetStatesByApp s a k v = (r, s1) \<Longrightarrow> st_apps s1 = st_apps s"
  by (auto simp: set_RetrieveSetStatesByApp_def split: prod.splits bool.splits
      dest: tick_apps)

lemma action_Retrieve_apps:
  "action_RetrieveActionsByAppVersion s a v = (r, s1) \<Longrightarrow> st_apps s1 = st_apps s"
  by (auto simp: action_RetrieveActionsByAppVersion_def split: prod.splits bool.splits
      dest: tick_apps)

lemma tree_Create_apps: "tree_Create s t = (r, s1) \<Longrightarrow> st_apps s1 = st_apps s"
  by (auto simp: tree_Create_def Let_def split: prod.splits bool.splits dest: tick_apps)

lemma tree_Update_apps: "tree_Update s t = (r, s1) \<Longrightarrow> st_apps s1 = st_apps s"
  by (auto simp: tree_Update_def split: prod.splits bool.splits dest: tick_apps)

lemma kv_Create_apps: "kv_Create s t = (r, s1) \<Longrightarrow> st_apps s1 = st_apps s"
  by (auto simp: kv_Create_def Let_def split: prod.splits bool.splits dest: tick_apps)

lemma set_Create_apps: "set_Create s t = (r, s1) \<Longrightarrow> st_apps s1 = st_apps s"
  by (auto simp: set_Create_def Let_def split: prod.splits bool.splits dest: tick_apps)

lemma action_Create_apps: "action_Create s t = (r, s1) \<Longrightarrow> st_apps s1 = st_apps s"
  by (auto simp: action_Create_def Let_def split: prod.splits bool.splits dest: tick_apps)

lemma treestate_create_loop_apps:
  "treestate_create_loop pairs m s = (e, rows, m', s') \<Longrightarrow> st_apps s' = st_apps s"
proof (induction pairs arbitrary: m s rows)
  case Nil
  then show ?case by simp
next
  case (Cons p pairs)
  obtain oldID t where p: "p = (oldID, t)" by (cases p)
  obtain n e1 t' s1 where c: "tree_Create s t = ((n, e1, t'), s1)"
    by (metis prod_cases3 surj_pair)
  show ?case
  proof (cases e1)
    case None
    with Cons.prems p c obtain rows1 where
      "treestate_create_loop pairs (m(oldID \<mapsto> n)) s1 = (e, rows1, m', s')"
      by (auto split: prod.splits)
    from Cons.IH [OF this] tree_Create_apps [OF c] show ?thesis by simp
  next
    case (Some err)
    with Cons.prems p c tree_Create_apps [OF c] show ?thesis by auto
  qed
qed

lemma treestate_update_loop_apps:
  "treestate_update_loop rows m s = (e, s') \<Longrightarrow> st_apps s' = st_apps s"
proof (induction rows arbitrary: s)
  case Nil
  then show ?case by simp
next
  case (Cons t rows)
  obtain e1 s1 where u: "tree_Update s (relink m t) = (e1, s1)"
    by (cases "tree_Update s (relink m t)")
  from Cons.prems u Cons.IH [of s1] tree_Update_apps [OF u]
  show ?case by (cases e1) auto
qed

lemma kvstate_create_loop_apps:
  "kvstate_create_loop rows s = (e, s') \<Longrightarrow> st_apps s' = st_apps s"
proof (induction rows arbitrary: s)
  case Nil
  then show ?case by simp
next
  case (Cons k rows)
  obtain e1 s1 where c: "kv_Create s k = (e1, s1)" by (cases "kv_Create s k")
  from Cons.prems c Cons.IH [of s1] kv_Create_apps [OF c]
  show ?case by (cases e1) auto
qed

lemma setstate_create_loop_apps:
  "setstate_create_loop rows s = (e, s') \<Longrightarrow> st_apps s' = st_apps s"
proof (induction rows arbitrary: s)
  case Nil
  then show ?case by simp
next
  case (Cons k rows)
  obtain e1 s1 where c: "set_Create s k = (e1, s1)" by (cases "set_Create s k")
  from Cons.prems c Cons.IH [of s1] set_Create_apps [OF c]
  show ?case by (cases e1) auto
qed

lemma action_create_loop_apps:
  "action_create_loop rows s = (e, s') \<Longrightarrow> st_apps s' = st_apps s"
proof (induction rows arbitrary: s)
  case Nil
  then show ?case by simp
next
  case (Cons k rows)
  obtain n e1 s1 where c: "action_Create s k = ((n, e1), s1)" by (metis surj_pair)
  from Cons.prems c Cons.IH [of s1] action_Create_apps [OF c]
  show ?case by (cases e1) auto
qed

lemma releaseTreeStateByApp_apps:
  "releaseTreeStateByApp s app = (e, s') \<Longrightarrow> st_apps s' = st_apps s"
  unfolding releaseTreeStateByApp_def Let_def
  by (auto split: prod.splits option.splits
      dest!: tree_Retrieve_apps treestate_create_loop_apps treestate_update_loop_apps)

lemma releaseKVStateByApp_apps:
  "releaseKVStateByApp s app = (e, s') \<Longrightarrow> st_apps s' = st_apps s"
  unfolding releaseKVStateByApp_def
  by (auto split: prod.splits option.splits dest!: kv_Retrieve_apps kvstate_create_loop_apps)

lemma releaseSetStateByApp_apps:
  "releaseSetStateByApp s app = (e, s') \<Longrightarrow> st_apps s' = st_apps s"
  unfolding releaseSetStateByApp_def
  by (auto split: prod.splits option.splits dest!: set_Retrieve_apps setstate_create_loop_apps)

lemma releaseActionsByApp_apps:
  "releaseActionsByApp s app = (e, s') \<Longrightarrow> st_apps s' = st_apps s"
  unfolding releaseActionsByApp_def
  by (auto split: prod.splits option.splits
      dest!: action_Retrieve_apps action_create_loop_apps)

lemma find_app_replaced:
  "find (\<lambda>b. app_ID b = i) xs = Some a \<Longrightarrow> app_ID a' = i \<Longrightarrow>
   find (\<lambda>b. app_ID b = i) (map (\<lambda>r. if app_ID r = app_ID a then a' else r) xs) = Some a'"
proof (induction xs)
  case Nil
  then show ?case by simp
next
  case (Cons x xs)
  then show ?case by (auto split: if_splits)
qed

lemma app_Retrieve_found:
  "app_RetrieveAppByID s appID = ((a, None), s1) \<Longrightarrow>
   find (\<lambda>b. app_ID b = appID) (st_apps s) = Some a \<and> st_apps s1 = st_apps s"
  by (auto simp: app_RetrieveAppByID_def split: prod.splits bool.splits option.splits
      dest: tick_apps)

lemma app_Update_cases:
  "app_Update s a = (e, s') \<Longrightarrow>
   (e = Some StorageFailure \<and> st_apps s' = st_apps s)
   \<or> (e = None \<and> st_apps s' = map (\<lambda>r. if app_ID r = app_ID a then a else r) (st_apps s))"
  by (auto simp: app_Update_def split: prod.splits bool.splits dest: tick_apps)

lemma formatActions_loop_Panics:
  "(formatActions_loop res acc = Panics) = (\<exists>r \<in> set res. \<not> type_in_range r)"
  by (induction res arbitrary: acc) (auto simp: type_array_at_def type_in_range_def)

lemma formatActions_Panics:
  "action_RetrieveActionsByAppVersion s appID version = ((res, None), s1) \<Longrightarrow>
   (formatActions s appID version = Panics) = (\<exists>r \<in> set res. \<not> type_in_range r)"
  using formatActions_loop_Panics [of res "[]"]
  by (auto simp: formatActions_def split: go.splits)

lemma fetchEditor_cases:
  assumes rd: "app_RetrieveAppByID s appID = ((a, None), s1)"
      and nz: "app_ID a \<noteq> 0"
      and le: "sint version \<le> sint (app_MainlineVersion a)"
      and us: "user_RetrieveByID s1 (app_UpdatedBy a) = (u, s2)"
  shows "fetchEditor x s appID version =
     (case formatActions s2 appID version of
        Panics \<Rightarrow> Panics
      | Returns (ra, s3) \<Rightarrow>
          (case formatComponents x s3 appID version of
             Panics \<Rightarrow> Panics
           | Returns (rc, s4) \<Rightarrow>
               Returns ((\<lparr>ed_AppInfo = \<lparr>dto_ID = app_ID a, dto_Name = app_Name a,
                      dto_ReleaseVersion = app_ReleaseVersion a,
                      dto_MainlineVersion = app_MainlineVersion a,
                      dto_CreatedBy = 0, dto_UpdatedBy = app_UpdatedBy a,
                      dto_Modifier = user_Nickname (fst u)\<rparr>,
                    ed_Actions = fst ra, ed_Components = fst rc,
                    ed_DependenciesState = fst (fst (formatDependenciesState x s4 appID version)),
                    ed_DragShadowState = fst (fst (formatDragShadowState x
                       (snd (formatDependenciesState x s4 appID version)) appID version)),
                    ed_DottedLineSquareState = fst (fst (formatDottedLineSquareState x
                       (snd (formatDragShadowState x
                          (snd (formatDependenciesState x s4 appID version)) appID version))
                       appID version)),
                    ed_DisplayNameState = fst (fst (formatDisplayNameState
                       (snd (formatDottedLineSquareState x
                          (snd (formatDragShadowState x
                             (snd (formatDependenciesState x s4 appID version)) appID version))
                          appID version)) appID version))\<rparr>, None),
                  snd (formatDisplayNameState
                       (snd (formatDottedLineSquareState x
                          (snd (formatDragShadowState x
                             (snd (formatDependenciesState x s4 appID version)) appID version))
                          appID version)) appID version))))"
  using rd nz le us
  by (auto simp: fetchEditor_def Let_def split: go.splits prod.splits)

lemma tick_tables:
  "tick s = (b, s1) \<Longrightarrow> st_actions s1 = st_actions s \<and> st_treestates s1 = st_treestates s"
  by (auto simp: tick_def split: list.splits)

lemma app_Retrieve_tables:
  "app_RetrieveAppByID s appID = (r, s1) \<Longrightarrow>
   st_actions s1 = st_actions s \<and> st_treestates s1 = st_treestates s"
  by (auto simp: app_RetrieveAppByID_def split: prod.splits bool.splits option.splits
      dest: tick_tables)

lemma user_Retrieve_tables:
  "user_RetrieveByID s uid = (r, s1) \<Longrightarrow>
   st_actions s1 = st_actions s \<and> st_treestates s1 = st_treestates s"
  by (auto simp: user_RetrieveByID_def split: prod.splits bool.splits option.splits
      dest: tick_tables)

lemma action_Retrieve_rows:
  "action_RetrieveActionsByAppVersion s appID version = ((res, e), s1) \<Longrightarrow>
   set res \<subseteq> {r \<in> set (st_actions s). ar_App r = appID \<and> ar_Version r = version}
   \<and> st_treestates s1 = st_treestates s"
  by (auto simp: action_RetrieveActionsByAppVersion_def split: prod.splits bool.splits
      dest: tick_tables)

lemma formatActions_Returns:
  assumes "\<forall>r \<in> set (st_actions s). ar_App r = appID \<and> ar_Version r = version \<longrightarrow> type_in_range r"
  shows "\<exists>ra s3. formatActions s appID version = Returns (ra, s3)
           \<and> st_treestates s3 = st_treestates s"
proof -
  obtain res e s1 where ac: "action_RetrieveActionsByAppVersion s appID version = ((res, e), s1)"
    by (metis surj_pair)
  from action_Retrieve_rows [OF ac] assms have ok: "\<forall>r \<in> set res. type_in_range r"
    and tr: "st_treestates s1 = st_treestates s" by auto
  from ok have "formatActions_loop res [] \<noteq> Panics"
    by (simp add: formatActions_loop_Panics)
  with ac tr show ?thesis
    by (cases e; cases "formatActions_loop res []") (auto simp: formatActions_def)
qed

lemma formatComponents_no_rows:
  assumes "\<forall>r \<in> set (st_treestates s).
             \<not> (ts_AppRefID r = appID \<and> ts_StateType r = TREE_STATE_TYPE_COMPONENTS
                \<and> ts_Version r = version)"
  shows "\<exists>e s4. formatComponents x s appID version = Returns ((None, Some e), s4)"
proof -
  have "filter (\<lambda>r. ts_AppRefID r = appID \<and> ts_StateType r = TREE_STATE_TYPE_COMPONENTS
                    \<and> ts_Version r = version) (st_treestates s1) = []"
    if "st_treestates s1 = st_treestates s" for s1
    using assms that by (auto simp: filter_empty_conv)
  then show ?thesis
    by (auto simp: formatComponents_def tree_RetrieveTreeStatesByApp_def tick_def
        split: list.splits bool.splits)
qed

lemma formatComponents_Returns:
  assumes "\<forall>root m. buildComponentTree x root m \<noteq> Panics"
  shows "\<exists>rc s4. formatComponents x s appID version = Returns (rc, s4)"
proof -
  have "\<exists>n e. buildComponentTree x root m = Returns (n, e)" for root m
    using assms by (cases "buildComponentTree x root m") auto
  then show ?thesis
    unfolding formatComponents_def Let_def
    by (auto split: prod.splits option.splits go.splits) (metis go.distinct(1))+
qed

lemma panics_iff: "panics r = (r = Panics)"
  by (cases r) (simp_all add: panics_def)

lemma GetMegaData_Returns:
  "fetchEditor x s appID version = Returns ((doc, None), s') \<Longrightarrow>
   GetMegaData x s appID version = Returns ((doc, None), s')"
  by (simp add: GetMegaData_def)

lemma fetchEditor_not_found_iff:
  assumes rd: "app_RetrieveAppByID s appID = ((a, None), s1)"
      and nz: "app_ID a \<noteq> 0"
  shows "(sint (app_MainlineVersion a) < sint version \<longrightarrow>
            fetchEditor x s appID version = Returns ((zero_editor, Some ContentNotFound), s1))
       \<and> (sint version \<le> sint (app_MainlineVersion a) \<longrightarrow>
            fetchEditor x s appID version = Panics
            \<or> (\<exists>doc s'. fetchEditor x s appID version = Returns ((doc, None), s')))"
proof (cases "sint (app_MainlineVersion a) < sint version")
  case True
  with rd show ?thesis by (simp add: fetchEditor_def)
next
  case False
  then have le: "sint version \<le> sint (app_MainlineVersion a)" by simp
  obtain u s2 where us: "user_RetrieveByID s1 (app_UpdatedBy a) = (u, s2)"
    by (cases "user_RetrieveByID s1 (app_UpdatedBy a)")
  from le show ?thesis
    by (auto simp: fetchEditor_cases [OF rd nz le us] split: go.splits)
qed

lemma treestate_create_loop_dom:
  "treestate_create_loop pairs m s = (e, rows, m', s') \<Longrightarrow> dom m' \<subseteq> dom m \<union> fst ` set pairs"
proof (induction pairs arbitrary: m s rows)
  case Nil
  then show ?case by simp
next
  case (Cons p pairs)
  obtain oldID t where p: "p = (oldID, t)" by (cases p)
  obtain n e1 t' s1 where c: "tree_Create s t = ((n, e1, t'), s1)"
    by (metis prod_cases3 surj_pair)
  show ?case
  proof (cases e1)
    case None
    with Cons.prems p c obtain rows1 where
      "treestate_create_loop pairs (m(oldID \<mapsto> n)) s1 = (e, rows1, m', s')"
      by (auto split: prod.splits)
    from Cons.IH [OF this] p show ?thesis by auto
  next
    case (Some err)
    with Cons.prems p c show ?thesis by auto
  qed
qed

lemma tick_no_fault:
  assumes "True \<notin> set (st_faults s)"
  shows "\<exists>s1. tick s = (False, s1) \<and> True \<notin> set (st_faults s1)
           \<and> st_treestates s1 = st_treestates s \<and> st_tree_seq s1 = st_tree_seq s"
  using assms by (cases "st_faults s") (auto simp: tick_def)

lemma tree_Retrieve_no_fault:
  assumes "True \<notin> set (st_faults s)"
  shows "\<exists>s1. tree_RetrieveAllTypeTreeStatesByApp s appID version
             = ((filter (\<lambda>r. ts_AppRefID r = appID \<and> ts_Version r = version) (st_treestates s),
                 None), s1)
           \<and> True \<notin> set (st_faults s1)
           \<and> st_treestates s1 = st_treestates s \<and> st_tree_seq s1 = st_tree_seq s"
  using tick_no_fault [OF assms]
  by (auto simp: tree_RetrieveAllTypeTreeStatesByApp_def)

lemma tree_Create_no_fault:
  assumes "True \<notin> set (st_faults s)"
  shows "\<exists>s1. tree_Create s t
             = ((st_tree_seq s + 1, None, t\<lparr>ts_ID := st_tree_seq s + 1\<rparr>), s1)
           \<and> True \<notin> set (st_faults s1)
           \<and> st_treestates s1 = st_treestates s @ [t\<lparr>ts_ID := st_tree_seq s + 1\<rparr>]
           \<and> st_tree_seq s1 = st_tree_seq s + 1"
  using tick_no_fault [OF assms]
  by (auto simp: tree_Create_def Let_def)

lemma tree_Update_no_fault:
  assumes "True \<notin> set (st_faults s)"
  shows "\<exists>s1. tree_Update s t = (None, s1)
           \<and> True \<notin> set (st_faults s1)
           \<and> st_treestates s1 = map (\<lambda>r. if ts_ID r = ts_ID t then t else r) (st_treestates s)
           \<and> st_tree_seq s1 = st_tree_seq s"
  using tick_no_fault [OF assms]
  by (auto simp: tree_Update_def)

lemma created_rows_ids: "map ts_ID (created_rows pairs c) = next_ids c (length pairs)"
  by (induction pairs c rule: created_rows.induct) simp_all

lemma length_next_ids: "length (next_ids c n) = n"
  by (induction n arbitrary: c) simp_all

lemma create_loop_no_fault:
  assumes "True \<notin> set (st_faults s)" and "distinct (map fst pairs)"
  shows "\<exists>s'. treestate_create_loop pairs m s
             = (None, created_rows pairs (st_tree_seq s),
                m ++ map_of (zip (map fst pairs) (next_ids (st_tree_seq s) (length pairs))), s')
           \<and> True \<notin> set (st_faults s')
           \<and> st_treestates s' = st_treestates s @ created_rows pairs (st_tree_seq s)"
  using assms
proof (induction pairs arbitrary: m s)
  case Nil
  then show ?case by simp
next
  case (Cons p pairs)
  obtain oldID t where p: "p = (oldID, t)" by (cases p)
  let ?c = "st_tree_seq s"
  from tree_Create_no_fault [OF Cons.prems(1), of t] obtain s1 where
    c: "tree_Create s t = ((?c + 1, None, t\<lparr>ts_ID := ?c + 1\<rparr>), s1)"
    and f1: "True \<notin> set (st_faults s1)"
    and t1: "st_treestates s1 = st_treestates s @ [t\<lparr>ts_ID := ?c + 1\<rparr>]"
    and q1: "st_tree_seq s1 = ?c + 1" by blast
  from Cons.prems(2) p have d: "distinct (map fst pairs)" and nin: "oldID \<notin> fst ` set pairs"
    by auto
  from Cons.IH [OF f1 d, of "m(oldID \<mapsto> ?c + 1)", unfolded q1] obtain s' where
    l: "treestate_create_loop pairs (m(oldID \<mapsto> ?c + 1)) s1
         = (None, created_rows pairs (?c + 1),
            m(oldID \<mapsto> ?c + 1) ++ map_of (zip (map fst pairs) (next_ids (?c + 1) (length pairs))), s')"
    and f': "True \<notin> set (st_faults s')"
    and t': "st_treestates s' = st_treestates s1 @ created_rows pairs (?c + 1)"
    by blast
  have "oldID \<notin> dom (map_of (zip (map fst pairs) (next_ids (?c + 1) (length pairs))))"
    using nin by (auto simp: length_next_ids dest!: map_of_SomeD set_zip_leftD)
  then have eqm: "m ++ map_of (zip (map fst (p # pairs)) (next_ids ?c (length (p # pairs))))
      = m(oldID \<mapsto> ?c + 1) ++ map_of (zip (map fst pairs) (next_ids (?c + 1) (length pairs)))"
    using p by (simp add: map_add_upd_left)
  have cr: "created_rows (p # pairs) ?c = t\<lparr>ts_ID := ?c + 1\<rparr> # created_rows pairs (?c + 1)"
    using p by simp
  have res: "treestate_create_loop (p # pairs) m s
      = (None, t\<lparr>ts_ID := ?c + 1\<rparr> # created_rows pairs (?c + 1),
         m(oldID \<mapsto> ?c + 1) ++ map_of (zip (map fst pairs) (next_ids (?c + 1) (length pairs))), s')"
    using c l p by simp
  show ?case
    unfolding cr eqm
    using res f' t' t1 by (intro exI [of _ s']) simp
qed

lemma map_replace_absent:
  "k \<notin> set (map ts_ID xs) \<Longrightarrow> map (\<lambda>r. if ts_ID r = k then t else r) xs = xs"
  by (induction xs) auto

lemma update_loop_no_fault:
  assumes "True \<notin> set (st_faults s)"
      and "st_treestates s = pre @ todo"
      and "distinct (map ts_ID todo)"
      and "set (map ts_ID todo) \<inter> set (map ts_ID pre) = {}"
  shows "\<exists>s'. treestate_update_loop todo m s = (None, s')
           \<and> True \<notin> set (st_faults s')
           \<and> st_treestates s' = pre @ map (relink m) todo"
  using assms
proof (induction todo arbitrary: pre s)
  case Nil
  then show ?case by simp
next
  case (Cons t todo)
  have idr: "ts_ID (relink m t) = ts_ID t" by (simp add: relink_def)
  from tree_Update_no_fault [OF Cons.prems(1), of "relink m t"] obtain s1 where
    u: "tree_Update s (relink m t) = (None, s1)"
    and f1: "True \<notin> set (st_faults s1)"
    and t1: "st_treestates s1
              = map (\<lambda>r. if ts_ID r = ts_ID t then relink m t else r) (st_treestates s)"
    by (auto simp: idr)
  from Cons.prems(3,4) have a: "ts_ID t \<notin> set (map ts_ID pre)" "ts_ID t \<notin> set (map ts_ID todo)"
    by auto
  have t1': "st_treestates s1 = (pre @ [relink m t]) @ todo"
    using t1 Cons.prems(2) a by (simp add: map_replace_absent)
  have d: "distinct (map ts_ID todo)" using Cons.prems(3) by simp
  have dj: "set (map ts_ID todo) \<inter> set (map ts_ID (pre @ [relink m t])) = {}"
    using Cons.prems(3,4) by (auto simp: idr)
  from Cons.IH [OF f1 t1' d dj] u show ?case by auto
qed

lemma created_rows_nth:
  "i < length pairs \<Longrightarrow>
   created_rows pairs c ! i = (snd (pairs ! i))\<lparr>ts_ID := next_ids c (length pairs) ! i\<rparr>"
proof (induction pairs c arbitrary: i rule: created_rows.induct)
  case (1 c)
  then show ?case by simp
next
  case (2 oldID t rest c)
  then show ?case by (cases i) simp_all
qed

lemma length_created_rows: "length (created_rows pairs c) = length pairs"
  by (induction pairs c rule: created_rows.induct) simp_all

lemma relink_fields:
  "ts_ID (relink m t) = ts_ID t"
  "ts_ParentNodeRefID (relink m t) = map_index m (ts_ParentNodeRefID t)"
  "ts_ChildrenNodeRefIDs (relink m t) = convertLink (ts_ChildrenNodeRefIDs t) m"
  "ts_AppRefID (relink m t) = ts_AppRefID t"
  "ts_Version (relink m t) = ts_Version t"
  by (simp_all add: relink_def)

lemma tree_clone_core:
  assumes nofault: "True \<notin> set (st_faults s1)"
      and wf: "closed_tree src"
      and g: "\<And>t. ts_ParentNodeRefID (g t) = ts_ParentNodeRefID t
                  \<and> ts_ChildrenNodeRefIDs (g t) = ts_ChildrenNodeRefIDs t"
      and fresh: "fresh_ids s1 (length src)"
  shows "\<exists>idMap s2 s'.
           treestate_create_loop (zip (map ts_ID src) (map g src)) Map.empty s1
             = (None, created_rows (zip (map ts_ID src) (map g src)) (st_tree_seq s1), idMap, s2)
         \<and> treestate_update_loop
               (created_rows (zip (map ts_ID src) (map g src)) (st_tree_seq s1)) idMap s2
             = (None, s')
         \<and> st_treestates s' = st_treestates s1
               @ map (relink idMap) (created_rows (zip (map ts_ID src) (map g src)) (st_tree_seq s1))
         \<and> tree_isomorphic (map_index idMap) src
               (map (relink idMap) (created_rows (zip (map ts_ID src) (map g src)) (st_tree_seq s1)))
         \<and> set (next_ids (st_tree_seq s1) (length src)) \<inter> set (map ts_ID (st_treestates s1)) = {}"
proof -
  let ?olds = "map ts_ID src"
  let ?pairs = "zip ?olds (map g src)"
  let ?news = "next_ids (st_tree_seq s1) (length src)"
  let ?m = "map_of (zip ?olds ?news)"
  let ?created = "created_rows ?pairs (st_tree_seq s1)"
  let ?f = "map_index ?m"
  have lp: "length ?pairs = length src" and fp: "map fst ?pairs = ?olds" by simp_all
  from wf have dold: "distinct ?olds" and z: "0 \<notin> set ?olds"
    by (simp_all add: closed_tree_def)
  from fresh have dnew: "distinct ?news" and nz: "0 \<notin> set ?news"
    and dj: "set ?news \<inter> set (map ts_ID (st_treestates s1)) = {}"
    by (auto simp: fresh_ids_def)
  have ln: "length ?news = length src" by (simp add: length_next_ids)
  from create_loop_no_fault [OF nofault, of ?pairs Map.empty] dold obtain s2 where
    cl: "treestate_create_loop ?pairs Map.empty s1 = (None, ?created, ?m, s2)"
    and f2: "True \<notin> set (st_faults s2)"
    and t2: "st_treestates s2 = st_treestates s1 @ ?created"
    by (auto simp: fp lp)
  have ids: "map ts_ID ?created = ?news"
    by (simp add: created_rows_ids)
  from update_loop_no_fault [OF f2 t2, of ?m] ids dnew dj obtain s' where
    ul: "treestate_update_loop ?created ?m s2 = (None, s')"
    and t': "st_treestates s' = st_treestates s1 @ map (relink ?m) ?created"
    by auto
  have fi: "?f (?olds ! i) = ?news ! i" if "i < length src" for i
  proof -
    have "?m (?olds ! i) = Some (?news ! i)"
      by (rule map_of_zip_nth) (use that dold ln in simp_all)
    then show ?thesis by (simp only: map_index_def option.case)
  qed
  have f0: "?f 0 = 0"
  proof -
    have "?m 0 = None" using z ln by (auto dest!: map_of_SomeD set_zip_leftD)
    then show ?thesis by (simp add: map_index_def)
  qed
  have inj: "inj_on ?f (insert 0 (set ?olds))"
  proof (rule inj_onI)
    fix x y
    assume x: "x \<in> insert 0 (set ?olds)" and y: "y \<in> insert 0 (set ?olds)"
      and e: "?f x = ?f y"
    have img: "\<exists>i < length src. k = ?olds ! i \<and> ?f k = ?news ! i" if "k \<in> set ?olds" for k
    proof -
      from that obtain i where "i < length ?olds" "?olds ! i = k"
        by (auto simp: in_set_conv_nth)
      with fi [of i] show ?thesis by auto
    qed
    have nzf: "?f k \<noteq> 0" if "k \<in> set ?olds" for k
      using img [OF that] nz ln by (metis nth_mem)
    show "x = y"
    proof (cases "x = 0")
      case True
      with e f0 nzf [of y] y show ?thesis by auto
    next
      case xn: False
      show ?thesis
      proof (cases "y = 0")
        case True
        with e f0 nzf [of x] x xn show ?thesis by auto
      next
        case False
        with x y xn obtain i j where
          i: "i < length src" "x = ?olds ! i" "?f x = ?news ! i"
          and j: "j < length src" "y = ?olds ! j" "?f y = ?news ! j"
          using img [of x] img [of y] by auto
        with e dnew ln have "i = j" by (simp add: nth_eq_iff_index_eq)
        with i j show ?thesis by simp
      qed
    qed
  qed
  have row: "ts_ID (map (relink ?m) ?created ! i) = ?f (ts_ID (src ! i))
           \<and> ts_ParentNodeRefID (map (relink ?m) ?created ! i) = ?f (ts_ParentNodeRefID (src ! i))
           \<and> json_unmarshal_ints (ts_ChildrenNodeRefIDs (map (relink ?m) ?created ! i))
               = map_option (map ?f) (json_unmarshal_ints (ts_ChildrenNodeRefIDs (src ! i)))"
    if i: "i < length src" for i
  proof -
    have c: "?created ! i = (g (src ! i))\<lparr>ts_ID := ?news ! i\<rparr>"
      using i by (simp add: created_rows_nth)
    from wf i obtain ids where
      dec: "json_unmarshal_ints (ts_ChildrenNodeRefIDs (src ! i)) = Some ids"
      by (fastforce simp: closed_tree_def split: option.splits)
    show ?thesis
      using i c dec g [of "src ! i"] fi [of i]
      by (simp add: length_created_rows relink_fields convertLink_def unmarshal_marshal)
  qed
  have iso: "tree_isomorphic ?f src (map (relink ?m) ?created)"
    unfolding tree_isomorphic_def
    using f0 inj row by (simp add: length_created_rows)
  from cl ul t' iso dj show ?thesis by blast
qed

lemma created_rows_set:
  "t' \<in> set (created_rows pairs c) \<Longrightarrow> \<exists>t n. t \<in> snd ` set pairs \<and> t' = t\<lparr>ts_ID := n\<rparr>"
proof (induction pairs c rule: created_rows.induct)
  case (1 c)
  then show ?case by simp
next
  case (2 oldID t rest c)
  then show ?case by (auto simp: image_iff)
qed

lemma cloned_rows_scope:
  assumes "\<And>t n. P (relink m ((g t)\<lparr>ts_ID := n\<rparr>))"
      and "c \<in> set (map (relink m) (created_rows (zip (map ts_ID src) (map g src)) c0))"
  shows "P c"
proof -
  from assms(2) obtain t' where t': "t' \<in> set (created_rows (zip (map ts_ID src) (map g src)) c0)"
    and c: "c = relink m t'" by auto
  from created_rows_set [OF t'] obtain t n where
    "t \<in> snd ` set (zip (map ts_ID src) (map g src))" and e: "t' = t\<lparr>ts_ID := n\<rparr>" by blast
  then obtain r where "t = g r"
    by (auto dest!: set_zip_rightD)
  with assms(1) [where t = r and n = n] c e show ?thesis by simp
qed

lemma fresh_ids_cong:
  "st_treestates s1 = st_treestates s \<Longrightarrow> st_tree_seq s1 = st_tree_seq s \<Longrightarrow>
   fresh_ids s1 n = fresh_ids s n"
  by (simp add: fresh_ids_def)

lemma sint_add_of_nat:
  fixes c :: go_int
  assumes "0 \<le> sint c" and "sint c + int k < 2 ^ 63"
  shows "sint (c + of_nat k) = sint c + int k"
proof -
  have k: "sint (of_nat k :: go_int) = int k"
    using assms by (simp add: signed_of_nat signed_take_bit_int_eq_self)
  have "sint (c + of_nat k) = signed_take_bit 63 (sint c + sint (of_nat k :: go_int))"
    by (simp add: sint_word_ariths)
  with k show ?thesis
    using assms by (simp add: signed_take_bit_int_eq_self)
qed

lemma next_ids_nth: "i < n \<Longrightarrow> next_ids c n ! i = c + of_nat (Suc i)"
proof (induction n arbitrary: c i)
  case 0
  then show ?case by simp
next
  case (Suc n)
  then show ?case by (cases i) (simp_all add: algebra_simps)
qed

lemma fresh_ids_from_serial:
  assumes rows: "\<forall>r \<in> set (st_treestates s).
                   0 < sint (ts_ID r) \<and> sint (ts_ID r) \<le> sint (st_tree_seq s)"
      and nonneg: "0 \<le> sint (st_tree_seq s)"
      and room: "sint (st_tree_seq s) + int n < 2 ^ 63"
  shows "fresh_ids s n"
proof -
  let ?c = "st_tree_seq s"
  have v: "sint (next_ids ?c n ! i) = sint ?c + int (Suc i)" if "i < n" for i
  proof -
    from that room have "sint ?c + int (Suc i) < 2 ^ 63" by simp
    from sint_add_of_nat [OF nonneg this] that show ?thesis
      by (simp only: next_ids_nth)
  qed
  have d: "distinct (next_ids ?c n)"
    unfolding distinct_conv_nth length_next_ids
  proof (intro allI impI)
    fix i j
    assume "i < n" "j < n" "i \<noteq> j"
    with v [of i] v [of j] show "next_ids ?c n ! i \<noteq> next_ids ?c n ! j"
      by (metis add_left_cancel of_nat_eq_iff nat.inject)
  qed
  have "k \<noteq> 0 \<and> k \<notin> set (map ts_ID (st_treestates s))" if "k \<in> set (next_ids ?c n)" for k
  proof -
    from that obtain i where i: "i < n" "k = next_ids ?c n ! i"
      by (auto simp: in_set_conv_nth length_next_ids)
    with v [of i] have gt: "sint ?c < sint k" by simp
    with nonneg have "k \<noteq> 0" by auto
    moreover from gt rows have "k \<notin> set (map ts_ID (st_treestates s))" by fastforce
    ultimately show ?thesis by simp
  qed
  with d show ?thesis by (simp add: fresh_ids_def)
qed

lemma outcome_faults:
  "clone_step_outcome s e s' \<Longrightarrow> set (st_faults s') \<subseteq> set (st_faults s)"
  by (auto simp: clone_step_outcome_def calls_all_succeed_iff calls_stop_at_failure_iff
      split: option.splits)

lemma tick_faults: "tick s = (b, s1) \<Longrightarrow> set (st_faults s1) \<subseteq> set (st_faults s)"
  by (auto simp: tick_def split: list.splits)

lemma app_Retrieve_faults:
  "app_RetrieveAppByID s appID = (r, s1) \<Longrightarrow> set (st_faults s1) \<subseteq> set (st_faults s)"
  by (auto simp: app_RetrieveAppByID_def split: prod.splits bool.splits option.splits
      dest: tick_faults)

lemma app_Update_no_fault:
  "True \<notin> set (st_faults s) \<Longrightarrow> fst (app_Update s a) = None"
  by (cases "st_faults s") (auto simp: app_Update_def tick_def)

section \<open>Claims about \<open>convertLink\<close>\<close>

text \<open>
  C7. Round trip: for every list of identifiers, \<open>convertLink\<close> applied to the encoding
  of the list and to a map that sends every identifier of the list to itself gives the
  encoding back, element for element and in order.
\<close>

theorem convertLink_identity_roundtrip:
  assumes "\<forall>k \<in> set ids. idMap k = Some k"
  shows "convertLink (json_marshal_ints ids) idMap = json_marshal_ints ids"
proof -
  from assms have "map (map_index idMap) ids = ids"
    by (induction ids) (simp_all add: map_index_def)
  then show ?thesis
    by (simp add: convertLink_def unmarshal_marshal)
qed

theorem convertLink_identity_roundtrip_witness:
  "convertLink (json_marshal_ints [1, 2, 3]) demo_identity_map = json_marshal_ints [1, 2, 3]
   \<and> json_marshal_ints [1, 2, 3] = ''[1,2,3]''"
proof -
  have "\<forall>k \<in> set [1, 2, 3]. demo_identity_map k = Some k"
    by (simp add: demo_identity_map_def)
  from convertLink_identity_roundtrip [OF this] show ?thesis
    by (simp add: json_marshal_ints_def show_int_def show_nat.simps digit_char_def)
qed

text \<open>
  C8, as the code has it. When \<open>json.Unmarshal\<close> rejects the input, \<open>convertLink\<close> returns
  the empty string, whatever the map; nothing decoded from the input reaches the result.
  The empty string is not the encoding of the empty list, which is \<open>[]\<close>.
\<close>

theorem convertLink_malformed:
  assumes "json_unmarshal_ints ref = None"
  shows "convertLink ref idMap = []"
  using assms by (simp add: convertLink_def)

theorem convertLink_malformed_witness:
  "json_unmarshal_ints ''[1,2'' = None \<and> convertLink ''[1,2'' demo_identity_map = []"
proof -
  have "json_unmarshal_ints ''[1,2'' = None" by code_simp
  with convertLink_malformed [of "''[1,2''" demo_identity_map] show ?thesis by simp
qed

text \<open>
  C8, as the claim states it, fails: \<open>[1,2\<close> is not a well-formed encoding, and
  \<open>convertLink\<close> does not produce the encoding of the empty list for it.
\<close>

theorem convertLink_malformed_counterexample:
  "json_unmarshal_ints ''[1,2'' = None
   \<and> convertLink ''[1,2'' no_ids \<noteq> json_marshal_ints []"
proof -
  have "json_unmarshal_ints ''[1,2'' = None" by code_simp
  then show ?thesis by (simp add: convertLink_def json_marshal_ints_def)
qed


section \<open>Claims about duplicating and releasing\<close>

text \<open>
  C1, as the code has it. Every clone step (the four of \<open>DuplicateApp\<close> and the four of
  \<open>ReleaseApp\<close>) stops at its first failing storage call and returns that error: when
  the step returns an error, the failing call is the last one it made, and when it returns
  nil no call of it failed. \<open>DuplicateApp\<close> drops the errors of its clone steps: its own
  error is nil exactly when the read of the source app and the creation of the new app
  record both succeed.
\<close>

theorem clone_step_stops_at_first_failure:
  "clone_step_outcome s (fst (copyAllTreeState s appA appB usr)) (snd (copyAllTreeState s appA appB usr))
   \<and> clone_step_outcome s (fst (copyAllKVState s appA appB usr)) (snd (copyAllKVState s appA appB usr))
   \<and> clone_step_outcome s (fst (copyAllSetState s appA appB usr)) (snd (copyAllSetState s appA appB usr))
   \<and> clone_step_outcome s (fst (copyActions s appA appB usr)) (snd (copyActions s appA appB usr))
   \<and> clone_step_outcome s (fst (releaseTreeStateByApp s app)) (snd (releaseTreeStateByApp s app))
   \<and> clone_step_outcome s (fst (releaseKVStateByApp s app)) (snd (releaseKVStateByApp s app))
   \<and> clone_step_outcome s (fst (releaseSetStateByApp s app)) (snd (releaseSetStateByApp s app))
   \<and> clone_step_outcome s (fst (releaseActionsByApp s app)) (snd (releaseActionsByApp s app))
   \<and> ((snd (fst (DuplicateApp s appA usr name)) = None) =
        (snd (fst (app_RetrieveAppByID s appA)) = None
         \<and> snd (fst (app_Create (snd (app_RetrieveAppByID s appA))
               \<lparr>app_ID = 0, app_Name = name, app_ReleaseVersion = 0,
                app_MainlineVersion = 0, app_CreatedBy = usr, app_UpdatedBy = usr\<rparr>)) = None))"
  using copyAllTreeState_outcome [of s appA appB usr] copyAllKVState_outcome [of s appA appB usr]
    copyAllSetState_outcome [of s appA appB usr] copyActions_outcome [of s appA appB usr]
    releaseTreeStateByApp_outcome [of s app] releaseKVStateByApp_outcome [of s app]
    releaseSetStateByApp_outcome [of s app] releaseActionsByApp_outcome [of s app]
    DuplicateApp_error [of s appA usr name]
  by (simp add: prod_eq_iff)

theorem clone_step_stops_at_first_failure_witness:
  "fst (copyAllTreeState (demo_store\<lparr>st_faults := [False, False, True, True]\<rparr>) 1 2 9)
     = Some StorageFailure
   \<and> st_faults (snd (copyAllTreeState (demo_store\<lparr>st_faults := [False, False, True, True]\<rparr>) 1 2 9))
     = [True]
   \<and> clone_step_outcome (demo_store\<lparr>st_faults := [False, False, True, True]\<rparr>)
        (Some StorageFailure)
        (snd (copyAllTreeState (demo_store\<lparr>st_faults := [False, False, True, True]\<rparr>) 1 2 9))
   \<and> snd (fst (DuplicateApp (demo_store\<lparr>st_faults := [False, False, False, False, True]\<rparr>) 1 9 ''copy'')) = None"
proof -
  let ?s = "demo_store\<lparr>st_faults := [False, False, True, True]\<rparr>"
  have a: "fst (copyAllTreeState ?s 1 2 9) = Some StorageFailure" by code_simp
  have b: "st_faults (snd (copyAllTreeState ?s 1 2 9)) = [True]" by code_simp
  have c: "snd (fst (DuplicateApp (demo_store\<lparr>st_faults := [False, False, False, False, True]\<rparr>) 1 9 ''copy'')) = None"
    by code_simp
  from clone_step_stops_at_first_failure [of ?s 1 2 9] a b c show ?thesis by simp
qed

text \<open>
  C1, as the claim states it, fails. In \<open>faulty_store\<close> the third storage call, the first
  tree-state create of the release, fails. \<open>releaseTreeStateByApp\<close> returns the error and
  \<open>ReleaseApp\<close> drops it: it returns version 1 with a nil error and advances the counters,
  and no tree-state row was added.
\<close>

theorem release_reports_success_counterexample:
  "fst (releaseTreeStateByApp (snd (app_RetrieveAppByID faulty_store 1))
          (zero_app_dto\<lparr>dto_ID := 1, dto_MainlineVersion := 1\<rparr>)) = Some StorageFailure
   \<and> fst (ReleaseApp faulty_store 1) = (1, None)
   \<and> map app_MainlineVersion (st_apps (snd (ReleaseApp faulty_store 1))) = [1]
   \<and> st_treestates (snd (ReleaseApp faulty_store 1)) = st_treestates faulty_store
   \<and> length (st_treestates faulty_store) = 3"
  by code_simp

text \<open>
  C3. When the app is read with mainline version \<open>v\<close>, \<open>ReleaseApp\<close> either fails at the
  final update of the counters (it returns \<open>-1\<close> and the app rows are as before), or it
  succeeds: it returns \<open>v + 1\<close>, and the app row then has \<open>v + 1\<close> as mainline version and
  as release version. The error is nil either way, and the release succeeds whenever no
  storage call fails. The sum is Go's: it wraps at 64 bits.
\<close>


theorem ReleaseApp_advances_version:
  assumes rd: "app_RetrieveAppByID s appID = ((a, None), s1)"
      and rel: "ReleaseApp s appID = ((r, e), s')"
  shows "e = None
     \<and> ((r = - 1 \<and> st_apps s' = st_apps s)
        \<or> (r = app_MainlineVersion a + 1
           \<and> find (\<lambda>b. app_ID b = appID) (st_apps s')
               = Some (a\<lparr>app_MainlineVersion := app_MainlineVersion a + 1,
                         app_ReleaseVersion := app_MainlineVersion a + 1\<rparr>)))
     \<and> (True \<notin> set (st_faults s) \<longrightarrow>
           r = app_MainlineVersion a + 1
           \<and> find (\<lambda>b. app_ID b = appID) (st_apps s')
               = Some (a\<lparr>app_MainlineVersion := app_MainlineVersion a + 1,
                         app_ReleaseVersion := app_MainlineVersion a + 1\<rparr>))"
proof -
  let ?a2 = "a\<lparr>app_MainlineVersion := app_MainlineVersion a + 1,
                app_ReleaseVersion := app_MainlineVersion a + 1\<rparr>"
  let ?dto = "zero_app_dto\<lparr>dto_ID := appID, dto_MainlineVersion := app_MainlineVersion a + 1\<rparr>"
  from rd have f: "find (\<lambda>b. app_ID b = appID) (st_apps s) = Some a" and a1: "st_apps s1 = st_apps s"
    by (auto dest: app_Retrieve_found)
  from f have ida: "app_ID a = appID"
    by (auto simp: find_Some_iff)
  obtain e2 s2 where t2: "releaseTreeStateByApp s1 ?dto = (e2, s2)" by force
  obtain e3 s3 where t3: "releaseKVStateByApp s2 ?dto = (e3, s3)" by force
  obtain e4 s4 where t4: "releaseSetStateByApp s3 ?dto = (e4, s4)" by force
  obtain e5 s5 where t5: "releaseActionsByApp s4 ?dto = (e5, s5)" by force
  obtain e6 s6 where t6: "app_Update s5 ?a2 = (e6, s6)" by force
  have a5: "st_apps s5 = st_apps s"
    using releaseTreeStateByApp_apps [OF t2] releaseKVStateByApp_apps [OF t3]
      releaseSetStateByApp_apps [OF t4] releaseActionsByApp_apps [OF t5] a1 by simp
  have f5: "set (st_faults s5) \<subseteq> set (st_faults s)"
    using app_Retrieve_faults [OF rd]
      outcome_faults [OF releaseTreeStateByApp_outcome [OF t2]]
      outcome_faults [OF releaseKVStateByApp_outcome [OF t3]]
      outcome_faults [OF releaseSetStateByApp_outcome [OF t4]]
      outcome_faults [OF releaseActionsByApp_outcome [OF t5]] by blast
  have ok: "e6 = None" if "True \<notin> set (st_faults s)"
    using app_Update_no_fault [of s5 ?a2] that f5 t6 by auto
  have res: "((r, e), s') = (case e6 of Some err \<Rightarrow> ((- 1, None), s6)
                              | None \<Rightarrow> ((app_MainlineVersion a + 1, None), s6))"
    using rel rd t2 t3 t4 t5 t6 by (auto simp: ReleaseApp_def Let_def split: option.splits)
  have upd: "find (\<lambda>b. app_ID b = appID)
                (map (\<lambda>r. if app_ID r = app_ID a then ?a2 else r) (st_apps s)) = Some ?a2"
    by (rule find_app_replaced [OF f]) (simp add: ida)
  from app_Update_cases [OF t6] show ?thesis
  proof
    assume "e6 = Some StorageFailure \<and> st_apps s6 = st_apps s5"
    with res a5 ok show ?thesis by auto
  next
    assume "e6 = None \<and> st_apps s6 = map (\<lambda>r. if app_ID r = app_ID ?a2 then ?a2 else r) (st_apps s5)"
    with upd res a5 show ?thesis by simp
  qed
qed

theorem ReleaseApp_advances_version_witness:
  "app_RetrieveAppByID demo_store 1 = ((hd (st_apps demo_store), None), demo_store)
   \<and> True \<notin> set (st_faults demo_store)
   \<and> fst (ReleaseApp demo_store 1) = (1, None)
   \<and> find (\<lambda>b. app_ID b = 1) (st_apps (snd (ReleaseApp demo_store 1)))
       = Some ((hd (st_apps demo_store))\<lparr>app_MainlineVersion := 1, app_ReleaseVersion := 1\<rparr>)"
proof -
  have rd: "app_RetrieveAppByID demo_store 1 = ((hd (st_apps demo_store), None), demo_store)"
    by (simp add: app_RetrieveAppByID_def tick_def demo_store_def)
  have nf: "True \<notin> set (st_faults demo_store)" by (simp add: demo_store_def)
  have m: "app_MainlineVersion (hd (st_apps demo_store)) = 0" by (simp add: demo_store_def)
  from ReleaseApp_advances_version [OF rd, of "fst (fst (ReleaseApp demo_store 1))"
      "snd (fst (ReleaseApp demo_store 1))" "snd (ReleaseApp demo_store 1)"] rd nf m
  show ?thesis by (simp add: prod_eq_iff)
qed


section \<open>Claims about the editor document\<close>

text \<open>
  C9. \<open>formatActions\<close> indexes \<open>type_array\<close> with the \<open>Type\<close> of every retrieved action and
  checks nothing: once the app is read, the version passes the gate and the actions are
  retrieved, \<open>formatActions\<close> panics exactly when some retrieved action has a \<open>Type\<close>
  outside 0..21, and then \<open>fetchEditor\<close> and \<open>GetMegaData\<close> panic with it; no error is
  returned.
\<close>

theorem type_array_index_unchecked:
  assumes rd: "app_RetrieveAppByID s appID = ((a, None), s1)"
      and nz: "app_ID a \<noteq> 0"
      and le: "sint version \<le> sint (app_MainlineVersion a)"
      and us: "user_RetrieveByID s1 (app_UpdatedBy a) = (u, s2)"
      and ac: "action_RetrieveActionsByAppVersion s2 appID version = ((res, None), s3)"
  shows "(formatActions s2 appID version = Panics)
           = (\<exists>r \<in> set res. \<not> (0 \<le> sint (ar_Type r) \<and> sint (ar_Type r) < 22))
     \<and> ((\<exists>r \<in> set res. \<not> (0 \<le> sint (ar_Type r) \<and> sint (ar_Type r) < 22)) \<longrightarrow>
           fetchEditor x s appID version = Panics \<and> GetMegaData x s appID version = Panics)"
proof -
  have p: "(formatActions s2 appID version = Panics)
           = (\<exists>r \<in> set res. \<not> (0 \<le> sint (ar_Type r) \<and> sint (ar_Type r) < 22))"
    using formatActions_Panics [OF ac] by (simp add: type_in_range_def)
  have "fetchEditor x s appID version = Panics" if "formatActions s2 appID version = Panics"
    using that by (simp add: fetchEditor_cases [OF rd nz le us])
  then have "fetchEditor x s appID version = Panics \<and> GetMegaData x s appID version = Panics"
    if "formatActions s2 appID version = Panics"
    using that by (simp add: GetMegaData_def)
  with p show ?thesis by blast
qed

theorem type_array_index_unchecked_witness:
  "GetMegaData demo_externals bad_action_store 1 0 = Panics
   \<and> map ar_Type (st_actions bad_action_store) = [22]"
proof -
  let ?a = "hd (st_apps bad_action_store)"
  have rd: "app_RetrieveAppByID bad_action_store 1 = ((?a, None), bad_action_store)"
    by (simp add: app_RetrieveAppByID_def tick_def bad_action_store_def demo_store_def)
  have nz: "app_ID ?a \<noteq> 0" by (simp add: bad_action_store_def demo_store_def)
  have le: "sint (0 :: go_int) \<le> sint (app_MainlineVersion ?a)"
    by (simp add: bad_action_store_def demo_store_def)
  have us: "user_RetrieveByID bad_action_store (app_UpdatedBy ?a)
              = ((hd (st_users bad_action_store), None), bad_action_store)"
    by (simp add: user_RetrieveByID_def tick_def bad_action_store_def demo_store_def)
  have ac: "action_RetrieveActionsByAppVersion bad_action_store 1 0
              = ((st_actions bad_action_store, None), bad_action_store)"
    by (simp add: action_RetrieveActionsByAppVersion_def tick_def bad_action_store_def
        demo_store_def)
  have bad: "\<exists>r \<in> set (st_actions bad_action_store).
               \<not> (0 \<le> sint (ar_Type r) \<and> sint (ar_Type r) < 22)"
    by (simp add: bad_action_store_def)
  from type_array_index_unchecked [OF rd nz le us ac, of demo_externals] bad
  show ?thesis by (simp add: bad_action_store_def)
qed

text \<open>
  C4, as the code has it. For an app that the store returns (its identifier is not 0) and
  every requested version, \<open>GetMegaData\<close> returns the not-found error exactly when the
  version exceeds the mainline version (a signed comparison). For a version up to the
  mainline version, 0 included, it returns no error at all: it returns the document with
  a nil error, unless assembling the document panics.
\<close>

theorem GetMegaData_version_gate:
  assumes rd: "app_RetrieveAppByID s appID = ((a, None), s1)"
      and nz: "app_ID a \<noteq> 0"
  shows "((\<exists>doc s'. GetMegaData x s appID version = Returns ((doc, Some ContentNotFound), s'))
            = (sint (app_MainlineVersion a) < sint version))
       \<and> (sint version \<le> sint (app_MainlineVersion a) \<longrightarrow>
            GetMegaData x s appID version = Panics
            \<or> (\<exists>doc s'. GetMegaData x s appID version = Returns ((doc, None), s')))"
  using fetchEditor_not_found_iff [OF rd nz, where x = x and version = version]
  by (cases "sint (app_MainlineVersion a) < sint version") (auto simp: GetMegaData_def)

theorem GetMegaData_version_gate_witness:
  "(\<exists>doc s'. GetMegaData demo_externals demo_store 1 5
        = Returns ((doc, Some ContentNotFound), s'))
   \<and> (\<exists>doc s'. GetMegaData demo_externals demo_store 1 0 = Returns ((doc, None), s'))"
proof -
  let ?a = "hd (st_apps demo_store)"
  have rd: "app_RetrieveAppByID demo_store 1 = ((?a, None), demo_store)"
    by (simp add: app_RetrieveAppByID_def tick_def demo_store_def)
  have nz: "app_ID ?a \<noteq> 0" by (simp add: demo_store_def)
  have m: "app_MainlineVersion ?a = 0" by (simp add: demo_store_def)
  have "\<not> panics (GetMegaData demo_externals demo_store 1 0)" by code_simp
  then have np: "GetMegaData demo_externals demo_store 1 0 \<noteq> Panics"
    by (simp add: panics_iff)
  from GetMegaData_version_gate [OF rd nz, where x = demo_externals and version = 5]
    GetMegaData_version_gate [OF rd nz, where x = demo_externals and version = 0] m np
  show ?thesis by simp
qed

text \<open>
  C4, as the claim states it, fails: app 1 exists in \<open>bad_action_store\<close> with mainline
  version 0, and the request for version 0 does not succeed. The stored action has type
  22, and the request panics.
\<close>

theorem GetMegaData_version_gate_counterexample:
  "map app_ID (st_apps bad_action_store) = [1]
   \<and> map app_MainlineVersion (st_apps bad_action_store) = [0]
   \<and> GetMegaData demo_externals bad_action_store 1 0 = Panics"
proof -
  have "panics (GetMegaData demo_externals bad_action_store 1 0)" by code_simp
  then have "GetMegaData demo_externals bad_action_store 1 0 = Panics"
    by (simp add: panics_iff)
  moreover have "map app_ID (st_apps bad_action_store) = [1]
      \<and> map app_MainlineVersion (st_apps bad_action_store) = [0]"
    by (simp add: bad_action_store_def demo_store_def)
  ultimately show ?thesis by simp
qed

text \<open>
  C10, as the code has it. Once the app is read and the version does not exceed the
  mainline version, and provided that no section panics (every stored action of that app
  and version has a type in 0..21, and \<open>buildComponentTree\<close> returns), \<open>GetMegaData\<close>
  returns a document with a nil error whatever storage calls fail in between. When the
  (app, version) has no component row, the \<open>components\<close> field of the document is nil.
\<close>

theorem GetMegaData_discards_section_errors:
  assumes rd: "app_RetrieveAppByID s appID = ((a, None), s1)"
      and nz: "app_ID a \<noteq> 0"
      and le: "sint version \<le> sint (app_MainlineVersion a)"
      and ty: "\<forall>r \<in> set (st_actions s).
                 ar_App r = appID \<and> ar_Version r = version \<longrightarrow>
                 0 \<le> sint (ar_Type r) \<and> sint (ar_Type r) < 22"
      and bd: "\<forall>root tempMap. buildComponentTree x root tempMap \<noteq> Panics"
  shows "\<exists>doc s'. GetMegaData x s appID version = Returns ((doc, None), s')
           \<and> ((\<forall>r \<in> set (st_treestates s).
                  \<not> (ts_AppRefID r = appID \<and> ts_StateType r = TREE_STATE_TYPE_COMPONENTS
                     \<and> ts_Version r = version)) \<longrightarrow> ed_Components doc = None)"
proof -
  obtain u s2 where us: "user_RetrieveByID s1 (app_UpdatedBy a) = (u, s2)"
    by (cases "user_RetrieveByID s1 (app_UpdatedBy a)")
  have t2: "st_actions s2 = st_actions s" "st_treestates s2 = st_treestates s"
    using app_Retrieve_tables [OF rd] user_Retrieve_tables [OF us] by simp_all
  from ty t2 have "\<forall>r \<in> set (st_actions s2).
      ar_App r = appID \<and> ar_Version r = version \<longrightarrow> type_in_range r"
    by (simp add: type_in_range_def)
  from formatActions_Returns [OF this] obtain ra s3 where
    fa: "formatActions s2 appID version = Returns (ra, s3)"
    and t3: "st_treestates s3 = st_treestates s2" by blast
  from formatComponents_Returns [OF bd] obtain rc s4 where
    fc: "formatComponents x s3 appID version = Returns (rc, s4)" by blast
  have nil: "fst rc = None"
    if "\<forall>r \<in> set (st_treestates s).
          \<not> (ts_AppRefID r = appID \<and> ts_StateType r = TREE_STATE_TYPE_COMPONENTS
             \<and> ts_Version r = version)"
    using formatComponents_no_rows [of s3 appID version x] that t2 t3 fc by auto
  obtain doc s' where fe: "fetchEditor x s appID version = Returns ((doc, None), s')"
    and comp: "ed_Components doc = fst rc"
    using fa fc by (simp add: fetchEditor_cases [OF rd nz le us])
  from GetMegaData_Returns [OF fe] comp nil show ?thesis by auto
qed

theorem GetMegaData_discards_section_errors_witness:
  "\<exists>doc s'. GetMegaData demo_externals no_tree_store 1 0 = Returns ((doc, None), s')
             \<and> ed_Components doc = None"
proof -
  let ?a = "hd (st_apps no_tree_store)"
  have rd: "app_RetrieveAppByID no_tree_store 1 = ((?a, None), no_tree_store)"
    by (simp add: app_RetrieveAppByID_def tick_def no_tree_store_def demo_store_def)
  have nz: "app_ID ?a \<noteq> 0" by (simp add: no_tree_store_def demo_store_def)
  have le: "sint (0 :: go_int) \<le> sint (app_MainlineVersion ?a)"
    by (simp add: no_tree_store_def demo_store_def)
  have ty: "\<forall>r \<in> set (st_actions no_tree_store).
              ar_App r = 1 \<and> ar_Version r = 0 \<longrightarrow>
              0 \<le> sint (ar_Type r) \<and> sint (ar_Type r) < 22"
    by (simp add: no_tree_store_def demo_store_def)
  have bd: "\<forall>root tempMap. buildComponentTree demo_externals root tempMap \<noteq> Panics"
    by (simp add: demo_externals_def)
  have nr: "\<forall>r \<in> set (st_treestates no_tree_store).
              \<not> (ts_AppRefID r = 1 \<and> ts_StateType r = TREE_STATE_TYPE_COMPONENTS
                 \<and> ts_Version r = 0)"
    by (simp add: no_tree_store_def)
  from GetMegaData_discards_section_errors [OF rd nz le ty bd] nr show ?thesis by blast
qed

text \<open>
  C10, as the claim states it, fails: the version passes the gate and \<open>GetMegaData\<close> does
  not return a document, because the stored action of type 22 makes \<open>formatActions\<close>
  panic.
\<close>

theorem GetMegaData_discards_section_errors_counterexample:
  "map ar_Type (st_actions bad_action_store) = [22]
   \<and> sint (0 :: go_int) \<le> sint (app_MainlineVersion (hd (st_apps bad_action_store)))
   \<and> GetMegaData demo_externals bad_action_store 1 0 = Panics"
proof -
  have "panics (GetMegaData demo_externals bad_action_store 1 0)" by code_simp
  then have "GetMegaData demo_externals bad_action_store 1 0 = Panics"
    by (simp add: panics_iff)
  then show ?thesis by (simp add: bad_action_store_def demo_store_def)
qed

text \<open>
  C5 fails on the code for \<open>dottedLineSquareState\<close>. The draft of app 1 has a
  dotted-line-square row and a drag-shadow row, both with key \<open>button1\<close> and value \<open>{}\<close>.
  The document maps the key to the string \<open>{}\<close> in the first map and to the decoded
  (empty) object in the second.
\<close>

theorem formatDottedLineSquareState_stores_raw_string:
  "lookup_state (fst (fst (formatDottedLineSquareState demo_externals demo_store 1 0))) ''button1''
     = Some (AnyString ''{}'')
   \<and> json_Unmarshal_object demo_externals ''{}'' = Some []
   \<and> lookup_state (fst (fst (formatDragShadowState demo_externals demo_store 1 0))) ''button1''
     = Some (AnyObject (Some []))"
  by code_simp

section \<open>Claims about relinking a cloned tree\<close>

text \<open>
  C6. Let \<open>releaseIDMap\<close> be the map that the create loop built from rows none of which
  has identifier 0 (0 is the ``no parent'' sentinel, not a row identifier). Relinking a
  row with it never fails: a parent reference without an entry becomes 0; the parent
  reference 0 of the root stays 0; and every children reference is replaced in place, by
  0 when it has no entry and by its entry otherwise.
\<close>

theorem relink_unmapped_reference_is_zero:
  assumes loop: "treestate_create_loop pairs Map.empty s = (e, rows, releaseIDMap, s')"
      and nz: "0 \<notin> fst ` set pairs"
      and dec: "json_unmarshal_ints (ts_ChildrenNodeRefIDs t) = Some ids"
  shows "(releaseIDMap (ts_ParentNodeRefID t) = None \<longrightarrow>
            ts_ParentNodeRefID (relink releaseIDMap t) = 0)
       \<and> (ts_ParentNodeRefID t = 0 \<longrightarrow> ts_ParentNodeRefID (relink releaseIDMap t) = 0)
       \<and> (\<exists>ids'. json_unmarshal_ints (ts_ChildrenNodeRefIDs (relink releaseIDMap t)) = Some ids'
             \<and> length ids' = length ids
             \<and> (\<forall>i < length ids. releaseIDMap (ids ! i) = None \<longrightarrow> ids' ! i = 0)
             \<and> (\<forall>i < length ids. \<forall>n. releaseIDMap (ids ! i) = Some n \<longrightarrow> ids' ! i = n))"
proof -
  from treestate_create_loop_dom [OF loop] nz have z: "releaseIDMap 0 = None"
    by auto
  have c: "json_unmarshal_ints (ts_ChildrenNodeRefIDs (relink releaseIDMap t))
             = Some (map (map_index releaseIDMap) ids)"
    using dec by (simp add: relink_def convertLink_def unmarshal_marshal)
  show ?thesis
    using z c by (auto simp: relink_def map_index_def)
qed

theorem relink_unmapped_reference_is_zero_witness:
  "0 \<notin> fst ` set demo_pairs
   \<and> json_unmarshal_ints (ts_ChildrenNodeRefIDs dangling_row) = Some [2, 8]
   \<and> ts_ParentNodeRefID (relink (fst (snd (snd (treestate_create_loop demo_pairs no_ids demo_store))))
        dangling_row) = 0
   \<and> ts_ChildrenNodeRefIDs (relink (fst (snd (snd (treestate_create_loop demo_pairs no_ids demo_store))))
        dangling_row) = ''[5,0]''"
proof -
  let ?r = "treestate_create_loop demo_pairs Map.empty demo_store"
  have loop: "?r = (fst ?r, fst (snd ?r), fst (snd (snd ?r)), snd (snd (snd ?r)))" by simp
  have nz: "0 \<notin> fst ` set demo_pairs" by (simp add: demo_pairs_def demo_store_def)
  have dec: "json_unmarshal_ints (ts_ChildrenNodeRefIDs dangling_row) = Some [2, 8]" by code_simp
  have p: "fst (snd (snd ?r)) (ts_ParentNodeRefID dangling_row) = None"
    unfolding no_ids_def [symmetric] by code_simp
  have ch: "ts_ChildrenNodeRefIDs (relink (fst (snd (snd (treestate_create_loop demo_pairs no_ids demo_store))))
        dangling_row) = ''[5,0]''" by code_simp
  from relink_unmapped_reference_is_zero [OF loop nz dec] p nz dec ch show ?thesis
    by (simp add: no_ids_def)
qed

text \<open>
  C2. Take a store in which no storage call fails, whose draft tree rows of app \<open>appA\<close>
  are closed under their references (distinct non-zero identifiers, every parent
  reference 0 or the identifier of a row of the set, every children list decodable with
  all its entries in the set; a rooted tree is such a set), and whose serial counter hands
  out fresh identifiers. Then \<open>copyAllTreeState\<close>, and \<open>releaseTreeStateByApp\<close> for the
  same app, return nil and leave the old rows as they were, followed by the cloned rows:
  as many as the source rows, in the target scope, with identifiers that no old row has,
  and isomorphic to the source under the old-to-new identifier map, which is injective
  and keeps the sentinel 0: the identifier, the parent reference and the decoded
  children list of the \<open>i\<close>-th clone are the images of those of the \<open>i\<close>-th source row.
\<close>

theorem cloned_tree_is_isomorphic:
  assumes nofault: "True \<notin> set (st_faults s)"
      and wf: "closed_tree (draft_tree_rows s appA)"
      and fresh: "fresh_ids s (length (draft_tree_rows s appA))"
  shows "(\<exists>cln idMap s'.
            copyAllTreeState s appA appB usr = (None, s')
          \<and> st_treestates s' = st_treestates s @ cln
          \<and> tree_isomorphic (map_index idMap) (draft_tree_rows s appA) cln
          \<and> set (map ts_ID cln) \<inter> set (map ts_ID (st_treestates s)) = {}
          \<and> (\<forall>c \<in> set cln. ts_AppRefID c = appB \<and> ts_Version c = APP_EDIT_VERSION))
       \<and> (dto_ID app = appA \<longrightarrow>
           (\<exists>cln idMap s'.
              releaseTreeStateByApp s app = (None, s')
            \<and> st_treestates s' = st_treestates s @ cln
            \<and> tree_isomorphic (map_index idMap) (draft_tree_rows s appA) cln
            \<and> set (map ts_ID cln) \<inter> set (map ts_ID (st_treestates s)) = {}
            \<and> (\<forall>c \<in> set cln. ts_Version c = dto_MainlineVersion app)))"
proof -
  let ?src = "draft_tree_rows s appA"
  from tree_Retrieve_no_fault [OF nofault, of appA APP_EDIT_VERSION] obtain s1 where
    rt: "tree_RetrieveAllTypeTreeStatesByApp s appA APP_EDIT_VERSION = ((?src, None), s1)"
    and f1: "True \<notin> set (st_faults s1)"
    and t1: "st_treestates s1 = st_treestates s" and q1: "st_tree_seq s1 = st_tree_seq s"
    unfolding draft_tree_rows_def by blast
  from fresh have fresh1: "fresh_ids s1 (length ?src)"
    by (simp add: fresh_ids_cong [OF t1 q1])
  have part: "\<exists>cln idMap s'.
       (case treestate_create_loop (zip (map ts_ID ?src) (map g ?src)) Map.empty s1 of
          (Some err, _, _, s2) \<Rightarrow> (Some err, s2)
        | (None, treestates2, releaseIDMap, s2) \<Rightarrow>
            treestate_update_loop treestates2 releaseIDMap s2) = (None, s')
     \<and> st_treestates s' = st_treestates s @ cln
     \<and> tree_isomorphic (map_index idMap) ?src cln
     \<and> set (map ts_ID cln) \<inter> set (map ts_ID (st_treestates s)) = {}
     \<and> (\<forall>c \<in> set cln. P c)"
    if g: "\<And>t. ts_ParentNodeRefID (g t) = ts_ParentNodeRefID t
                \<and> ts_ChildrenNodeRefIDs (g t) = ts_ChildrenNodeRefIDs t"
      and sc: "\<And>m t n. P (relink m ((g t)\<lparr>ts_ID := n\<rparr>))"
    for g P
  proof -
    let ?created = "created_rows (zip (map ts_ID ?src) (map g ?src)) (st_tree_seq s1)"
    from tree_clone_core [OF f1 wf g fresh1] obtain idMap s2 s' where
      cl: "treestate_create_loop (zip (map ts_ID ?src) (map g ?src)) Map.empty s1
             = (None, ?created, idMap, s2)"
      and ul: "treestate_update_loop ?created idMap s2 = (None, s')"
      and t': "st_treestates s' = st_treestates s1 @ map (relink idMap) ?created"
      and iso: "tree_isomorphic (map_index idMap) ?src (map (relink idMap) ?created)"
      and dj: "set (next_ids (st_tree_seq s1) (length ?src)) \<inter> set (map ts_ID (st_treestates s1)) = {}"
      by blast
    have ids: "map ts_ID (map (relink idMap) ?created) = next_ids (st_tree_seq s1) (length ?src)"
      using created_rows_ids [of "zip (map ts_ID ?src) (map g ?src)" "st_tree_seq s1"]
      by (simp add: relink_fields comp_def)
    have "\<forall>c \<in> set (map (relink idMap) ?created). P c"
      using cloned_rows_scope [of P idMap g, OF sc] by blast
    with cl ul t' iso dj ids t1 show ?thesis
      by (intro exI [of _ "map (relink idMap) ?created"] exI [of _ idMap] exI [of _ s'])
        (simp del: set_map map_map)
  qed
  have copy: "\<exists>cln idMap s'.
            copyAllTreeState s appA appB usr = (None, s')
          \<and> st_treestates s' = st_treestates s @ cln
          \<and> tree_isomorphic (map_index idMap) ?src cln
          \<and> set (map ts_ID cln) \<inter> set (map ts_ID (st_treestates s)) = {}
          \<and> (\<forall>c \<in> set cln. ts_AppRefID c = appB \<and> ts_Version c = APP_EDIT_VERSION)"
    unfolding copyAllTreeState_def rt Let_def prod.case option.case
    by (rule part) (simp_all add: relink_fields)
  have rel: "\<exists>cln idMap s'.
              releaseTreeStateByApp s app = (None, s')
            \<and> st_treestates s' = st_treestates s @ cln
            \<and> tree_isomorphic (map_index idMap) ?src cln
            \<and> set (map ts_ID cln) \<inter> set (map ts_ID (st_treestates s)) = {}
            \<and> (\<forall>c \<in> set cln. ts_Version c = dto_MainlineVersion app)"
    if "dto_ID app = appA"
    unfolding releaseTreeStateByApp_def that rt Let_def prod.case option.case
    by (rule part) (simp_all add: relink_fields)
  from copy rel show ?thesis by blast
qed

theorem cloned_tree_is_isomorphic_witness:
  "True \<notin> set (st_faults demo_store)
   \<and> closed_tree (draft_tree_rows demo_store 1)
   \<and> fresh_ids demo_store (length (draft_tree_rows demo_store 1))
   \<and> (\<exists>cln idMap s'.
          copyAllTreeState demo_store 1 2 9 = (None, s')
        \<and> st_treestates s' = st_treestates demo_store @ cln
        \<and> tree_isomorphic (map_index idMap) (draft_tree_rows demo_store 1) cln
        \<and> set (map ts_ID cln) \<inter> set (map ts_ID (st_treestates demo_store)) = {}
        \<and> (\<forall>c \<in> set cln. ts_AppRefID c = 2 \<and> ts_Version c = APP_EDIT_VERSION))
   \<and> (\<exists>cln idMap s'.
          releaseTreeStateByApp demo_store (zero_app_dto\<lparr>dto_ID := 1, dto_MainlineVersion := 1\<rparr>)
            = (None, s')
        \<and> st_treestates s' = st_treestates demo_store @ cln
        \<and> tree_isomorphic (map_index idMap) (draft_tree_rows demo_store 1) cln
        \<and> set (map ts_ID cln) \<inter> set (map ts_ID (st_treestates demo_store)) = {}
        \<and> (\<forall>c \<in> set cln. ts_Version c = 1))
   \<and> map ts_ID (drop 3 (st_treestates (snd (copyAllTreeState demo_store 1 2 9)))) = [4, 5, 6]
   \<and> map ts_ParentNodeRefID (drop 3 (st_treestates (snd (copyAllTreeState demo_store 1 2 9))))
       = [0, 4, 4]
   \<and> map ts_ChildrenNodeRefIDs (drop 3 (st_treestates (snd (copyAllTreeState demo_store 1 2 9))))
       = [''[5,6]'', ''[]'', ''[]'']"
proof -
  have nofault: "True \<notin> set (st_faults demo_store)" by (simp add: demo_store_def)
  have wf: "closed_tree (draft_tree_rows demo_store 1)" by code_simp
  have fresh: "fresh_ids demo_store (length (draft_tree_rows demo_store 1))" by code_simp
  have ev: "map ts_ID (drop 3 (st_treestates (snd (copyAllTreeState demo_store 1 2 9)))) = [4, 5, 6]
   \<and> map ts_ParentNodeRefID (drop 3 (st_treestates (snd (copyAllTreeState demo_store 1 2 9))))
       = [0, 4, 4]
   \<and> map ts_ChildrenNodeRefIDs (drop 3 (st_treestates (snd (copyAllTreeState demo_store 1 2 9))))
       = [''[5,6]'', ''[]'', ''[]'']" by code_simp
  have app: "dto_ID (zero_app_dto\<lparr>dto_ID := 1, dto_MainlineVersion := 1\<rparr>) = 1"
    and ver: "dto_MainlineVersion (zero_app_dto\<lparr>dto_ID := 1, dto_MainlineVersion := 1\<rparr>) = 1"
    by simp_all
  from cloned_tree_is_isomorphic [OF nofault wf fresh,
      of 2 9 "zero_app_dto\<lparr>dto_ID := 1, dto_MainlineVersion := 1\<rparr>"]
  show ?thesis
    unfolding app ver using nofault wf fresh ev by blast
qed

end
